theory Spec2Isabelle
  imports Complex_Main "HOL-Library.Sublist" "HOL-Library.Multiset"
begin

section \<open>Runtime values\<close>

text \<open>
  The application keeps its bookmarks in a JavaScript array that is typed
  \<^verbatim>\<open>Bookmark[]\<close> but is filled, among others, from an imported JSON file whose
  elements are only partly checked. The collection is therefore modelled as a list of
  runtime values. \<open>JUndefined\<close> is the value of a missing property. Numbers are the
  finite ones, as rationals. A string is the sequence of the UTF-8 bytes of its text. \<open>JObj\<close> lists the own properties of an object, the first
  entry of a key being the one that is read.
\<close>

datatype val =
    JUndefined
  | JNull
  | JBool bool
  | JNum rat
  | JStr string
  | JArr "val list"
  | JObj "(string \<times> val) list"

datatype error = TypeError | SyntaxError

text \<open>Sequencing of computations that may throw.\<close>

definition bind :: "error + 'a \<Rightarrow> ('a \<Rightarrow> error + 'b) \<Rightarrow> error + 'b" where
  "bind m f = (case m of Inl e \<Rightarrow> Inl e | Inr x \<Rightarrow> f x)"

text \<open>
  \<^verbatim>\<open>b.k\<close>: reading a property of \<^verbatim>\<open>undefined\<close> or \<^verbatim>\<open>null\<close> throws a TypeError; a
  primitive or an array has none of the properties the program reads
  (\<^verbatim>\<open>id\<close>, \<^verbatim>\<open>url\<close>, \<^verbatim>\<open>title\<close>, \<^verbatim>\<open>domain\<close>, \<^verbatim>\<open>category\<close>, \<^verbatim>\<open>createdAt\<close>).
\<close>

fun getProp :: "val \<Rightarrow> string \<Rightarrow> error + val" where
  "getProp JUndefined k = Inl TypeError"
| "getProp JNull k = Inl TypeError"
| "getProp (JObj kvs) k = Inr (case map_of kvs k of None \<Rightarrow> JUndefined | Some v \<Rightarrow> v)"
| "getProp v k = Inr JUndefined"

text \<open>Truthiness, as \<^verbatim>\<open>&&\<close> and \<^verbatim>\<open>||\<close> test it.\<close>

fun truthy :: "val \<Rightarrow> bool" where
  "truthy JUndefined = False"
| "truthy JNull = False"
| "truthy (JBool b) = b"
| "truthy (JNum n) = (n \<noteq> 0)"
| "truthy (JStr s) = (s \<noteq> [])"
| "truthy (JArr xs) = True"
| "truthy (JObj kvs) = True"

text \<open>\<^verbatim>\<open>typeof v === 'number'\<close>\<close>

fun is_number :: "val \<Rightarrow> bool" where
  "is_number (JNum n) = True"
| "is_number v = False"

text \<open>
  SameValueZero, the comparison of \<^verbatim>\<open>Set.prototype.has\<close>, between a value of the stored
  collection and a value of the freshly parsed file: primitives are compared by value;
  an array or an object of the file is a new reference and equals nothing stored.
\<close>

fun sameValueZero :: "val \<Rightarrow> val \<Rightarrow> bool" where
  "sameValueZero JUndefined JUndefined = True"
| "sameValueZero JNull JNull = True"
| "sameValueZero (JBool a) (JBool b) = (a = b)"
| "sameValueZero (JNum a) (JNum b) = (a = b)"
| "sameValueZero (JStr a) (JStr b) = (a = b)"
| "sameValueZero a b = False"

text \<open>
  The identifiers of the drag-and-drop library (\<^verbatim>\<open>UniqueIdentifier = string | number\<close>),
  and \<^verbatim>\<open>v === id\<close> for a value \<open>v\<close> read from a bookmark.
\<close>

datatype unique_identifier = IdString string | IdNumber rat

fun strictEqId :: "val \<Rightarrow> unique_identifier \<Rightarrow> bool" where
  "strictEqId (JStr s) (IdString t) = (s = t)"
| "strictEqId (JNum n) (IdNumber m) = (n = m)"
| "strictEqId v i = False"

section \<open>Array helpers with callbacks that may throw\<close>

text \<open>\<^verbatim>\<open>Array.prototype.every\<close>: stops at the first element whose test is false.\<close>

fun every :: "('a \<Rightarrow> error + bool) \<Rightarrow> 'a list \<Rightarrow> error + bool" where
  "every p [] = Inr True"
| "every p (x # xs) =
     (case p x of Inl e \<Rightarrow> Inl e
      | Inr ok \<Rightarrow> if ok then every p xs else Inr False)"

text \<open>\<^verbatim>\<open>Array.prototype.map\<close>\<close>

fun mapE :: "('a \<Rightarrow> error + 'b) \<Rightarrow> 'a list \<Rightarrow> error + 'b list" where
  "mapE f [] = Inr []"
| "mapE f (x # xs) =
     (case f x of Inl e \<Rightarrow> Inl e
      | Inr y \<Rightarrow> (case mapE f xs of Inl e \<Rightarrow> Inl e | Inr ys \<Rightarrow> Inr (y # ys)))"

text \<open>\<^verbatim>\<open>Array.prototype.filter\<close>\<close>

fun filterE :: "('a \<Rightarrow> error + bool) \<Rightarrow> 'a list \<Rightarrow> error + 'a list" where
  "filterE p [] = Inr []"
| "filterE p (x # xs) =
     (case p x of Inl e \<Rightarrow> Inl e
      | Inr keep \<Rightarrow>
          (case filterE p xs of Inl e \<Rightarrow> Inl e
           | Inr ys \<Rightarrow> Inr (if keep then x # ys else ys)))"

text \<open>\<^verbatim>\<open>Array.prototype.findIndex\<close>: the first index whose test is true, or \<open>-1\<close>.\<close>

fun findIndex :: "('a \<Rightarrow> error + bool) \<Rightarrow> 'a list \<Rightarrow> error + int" where
  "findIndex p [] = Inr (- 1)"
| "findIndex p (x # xs) =
     (case p x of Inl e \<Rightarrow> Inl e
      | Inr hit \<Rightarrow>
          if hit then Inr 0
          else (case findIndex p xs of Inl e \<Rightarrow> Inl e
                | Inr k \<Rightarrow> Inr (if k < 0 then - 1 else k + 1)))"

text \<open>
  \<^verbatim>\<open>Array.prototype.splice(start, deleteCount, ...items)\<close>: a negative start counts from
  the end, both bounds are clamped to the array; the result is the array afterwards and
  the removed elements.
\<close>

definition relativeStart :: "int \<Rightarrow> nat \<Rightarrow> nat" where
  "relativeStart start len =
     (if start < 0 then nat (max (int len + start) 0) else min (nat start) len)"

definition arraySplice :: "'a list \<Rightarrow> int \<Rightarrow> nat \<Rightarrow> 'a list \<Rightarrow> 'a list \<times> 'a list" where
  "arraySplice xs start deleteCount items =
     (let s = relativeStart start (length xs);
          d = min deleteCount (length xs - s)
      in (take s xs @ items @ drop (s + d) xs, take d (drop s xs)))"

section \<open>Application state\<close>

datatype sort_option = Newest | Oldest | AZ | ZA | DomainSort | Custom

record app_state =
  bookmarks :: "val list"
  selectedCategory :: string
  searchQuery :: string
  sortOption :: sort_option
  activeId :: "unique_identifier option"
  isSettingsOpen :: bool

section \<open>Import and merge\<close>

text \<open>
  The \<^verbatim>\<open>try\<close> statement of \<^verbatim>\<open>fileReader.onload\<close> in \<^verbatim>\<open>handleImportFile\<close>, which is run
  when the file has some content. Its inputs are the state, the outcome of \<^verbatim>\<open>JSON.parse\<close>
  on that content (a SyntaxError or the parsed value) and the user's answer to the
  confirmation dialog. Its result is the new state and the alert shown, if any.
  Every exception raised inside the \<^verbatim>\<open>try\<close> block ends in the \<^verbatim>\<open>catch\<close> branch, which
  shows "Error parsing JSON file." and changes nothing. The alerts \<open>ExpectedArray\<close> and
  \<open>InvalidFileFormat\<close> are the failures that the specification calls "not-an-array" and
  "invalid-shape". The callback works on the collection that the handler saw when the
  file was chosen; the model takes it to be the stored one.
\<close>

datatype alert =
    Imported nat
  | InvalidFileFormat
  | ExpectedArray
  | ErrorParsing

text \<open>\<^verbatim>\<open>b => b.id && b.url && typeof b.createdAt === 'number'\<close>\<close>

definition isValidElem :: "val \<Rightarrow> error + bool" where
  "isValidElem b =
     bind (getProp b ''id'') (\<lambda>i.
       if \<not> truthy i then Inr False
       else bind (getProp b ''url'') (\<lambda>u.
         if \<not> truthy u then Inr False
         else bind (getProp b ''createdAt'') (\<lambda>c. Inr (is_number c))))"

text \<open>\<^verbatim>\<open>bookmarks.map(b => b.id)\<close>\<close>

definition idsOf :: "val list \<Rightarrow> error + val list" where
  "idsOf bs = mapE (\<lambda>b. getProp b ''id'') bs"

text \<open>\<^verbatim>\<open>currentIds.has(v)\<close>\<close>

definition has :: "val list \<Rightarrow> val \<Rightarrow> bool" where
  "has currentIds v = list_ex (\<lambda>c. sameValueZero c v) currentIds"

text \<open>\<^verbatim>\<open>parsed.filter(b => !currentIds.has(b.id))\<close>\<close>

definition newBookmarks :: "val list \<Rightarrow> val list \<Rightarrow> error + val list" where
  "newBookmarks currentIds parsed =
     filterE (\<lambda>b. bind (getProp b ''id'') (\<lambda>i. Inr (\<not> has currentIds i))) parsed"

text \<open>The statements inside \<^verbatim>\<open>try\<close>, after \<^verbatim>\<open>JSON.parse\<close> has returned.\<close>

definition importParsed :: "app_state \<Rightarrow> val \<Rightarrow> bool \<Rightarrow> error + app_state \<times> alert option" where
  "importParsed s parsed confirmed =
     (case parsed of
        JArr elems \<Rightarrow>
          bind (every isValidElem elems) (\<lambda>isValid.
            if isValid then
              if confirmed then
                bind (idsOf (bookmarks s)) (\<lambda>currentIds.
                  bind (newBookmarks currentIds elems) (\<lambda>new.
                    Inr (s\<lparr>bookmarks := bookmarks s @ new, isSettingsOpen := False\<rparr>,
                         Some (Imported (length new)))))
              else Inr (s, None)
            else Inr (s, Some InvalidFileFormat))
      | _ \<Rightarrow> Inr (s, Some ExpectedArray))"

definition handleImportFile :: "app_state \<Rightarrow> error + val \<Rightarrow> bool \<Rightarrow> app_state \<times> alert option" where
  "handleImportFile s parseResult confirmed =
     (case bind parseResult (\<lambda>parsed. importParsed s parsed confirmed) of
        Inl e \<Rightarrow> (s, Some ErrorParsing)
      | Inr r \<Rightarrow> r)"

text \<open>
  The whole callback, with its guard \<^verbatim>\<open>if (e.target?.result)\<close>: for a file without content
  (\<open>None\<close>) nothing is parsed, nothing is shown and nothing changes.
\<close>

definition fileReaderOnload ::
  "app_state \<Rightarrow> (error + val) option \<Rightarrow> bool \<Rightarrow> app_state \<times> alert option" where
  "fileReaderOnload s content confirmed =
     (case content of
        None \<Rightarrow> (s, None)
      | Some parseResult \<Rightarrow> handleImportFile s parseResult confirmed)"

section \<open>The view pipeline\<close>

text \<open>
  Built-ins of the JavaScript engine that the filter and the comparators reach and that
  are not modelled further: the locale-aware \<^verbatim>\<open>String.prototype.localeCompare\<close>, the
  coercions of non-primitive operands (strings, arrays and objects to a number, where
  \<open>None\<close> is NaN; numbers, arrays and objects to a string), and
  \<^verbatim>\<open>String.prototype.toLowerCase\<close> on text that is not ASCII, where it follows the case
  tables of Unicode and is sensitive to the context of a letter.
\<close>

record js_env =
  localeCompare :: "string \<Rightarrow> string \<Rightarrow> rat"
  otherToNumber :: "val \<Rightarrow> rat option"
  otherToString :: "val \<Rightarrow> string"
  otherToLowerCase :: "string \<Rightarrow> string"

fun toNumber :: "js_env \<Rightarrow> val \<Rightarrow> rat option" where
  "toNumber env JUndefined = None"
| "toNumber env JNull = Some 0"
| "toNumber env (JBool b) = Some (if b then 1 else 0)"
| "toNumber env (JNum n) = Some n"
| "toNumber env v = otherToNumber env v"

fun toString :: "js_env \<Rightarrow> val \<Rightarrow> string" where
  "toString env JUndefined = ''undefined''"
| "toString env JNull = ''null''"
| "toString env (JBool b) = (if b then ''true'' else ''false'')"
| "toString env (JStr s) = s"
| "toString env v = otherToString env v"

text \<open>\<^verbatim>\<open>x - y\<close>; the result is NaN as soon as one operand is.\<close>

definition minus :: "js_env \<Rightarrow> val \<Rightarrow> val \<Rightarrow> rat option" where
  "minus env x y =
     (case toNumber env x of None \<Rightarrow> None
      | Some a \<Rightarrow> (case toNumber env y of None \<Rightarrow> None | Some b \<Rightarrow> Some (a - b)))"

text \<open>
  \<^verbatim>\<open>String.prototype.toLowerCase\<close>. On ASCII text it replaces the letters A to Z, whose
  lower-case letter differs in the bit of value 32, and leaves every other character; a
  byte is an ASCII character when its highest bit is not set. Any other text is
  lower-cased by the engine.
\<close>

definition isAscii :: "char \<Rightarrow> bool" where
  "isAscii c = (case c of Char b0 b1 b2 b3 b4 b5 b6 b7 \<Rightarrow> \<not> b7)"

definition lowerChar :: "char \<Rightarrow> char" where
  "lowerChar c =
     (if c \<in> set ''ABCDEFGHIJKLMNOPQRSTUVWXYZ''
      then (case c of Char b0 b1 b2 b3 b4 b5 b6 b7 \<Rightarrow> Char b0 b1 b2 b3 b4 True b6 b7)
      else c)"

definition lowerCase :: "js_env \<Rightarrow> string \<Rightarrow> string" where
  "lowerCase env s = (if list_all isAscii s then map lowerChar s else otherToLowerCase env s)"

text \<open>
  \<^verbatim>\<open>v.toLowerCase()\<close> for a value read from a bookmark: on \<^verbatim>\<open>undefined\<close> and \<^verbatim>\<open>null\<close> the
  property read throws, on any other value that is not a string the method is missing
  and the call throws.
\<close>

fun toLowerCase :: "js_env \<Rightarrow> val \<Rightarrow> error + string" where
  "toLowerCase env (JStr s) = Inr (lowerCase env s)"
| "toLowerCase env v = Inl TypeError"

text \<open>
  \<^verbatim>\<open>s.includes(q)\<close>; on the UTF-8 bytes of well-formed text a match starts and ends where a
  character does, as it does on the code units that the engine compares.
\<close>

fun str_includes :: "string \<Rightarrow> string \<Rightarrow> bool" where
  "str_includes [] q = (q = [])"
| "str_includes (c # cs) q = (prefix q (c # cs) \<or> str_includes cs q)"

text \<open>
  The callback of \<^verbatim>\<open>bookmarks.filter\<close>. The category is read only when a category other
  than \<^verbatim>\<open>'All Bookmarks'\<close> is selected, the domain only when the title does not match; the
  title is read for every bookmark.
\<close>

definition matchesFilter :: "js_env \<Rightarrow> string \<Rightarrow> string \<Rightarrow> val \<Rightarrow> error + bool" where
  "matchesFilter env category query bookmark =
     bind (if category = ''All Bookmarks'' then Inr True
           else bind (getProp bookmark ''category'') (\<lambda>c. Inr (c = JStr category)))
       (\<lambda>matchesCategory.
     bind (getProp bookmark ''title'') (\<lambda>t.
     bind (toLowerCase env t) (\<lambda>title.
     bind (if str_includes title (lowerCase env query) then Inr True
           else bind (getProp bookmark ''domain'') (\<lambda>d.
                bind (toLowerCase env d) (\<lambda>domain.
                  Inr (str_includes domain (lowerCase env query)))))
       (\<lambda>matchesSearch. Inr (matchesCategory \<and> matchesSearch)))))"

text \<open>
  \<^verbatim>\<open>x.localeCompare(y)\<close> for values read from two bookmarks: the receiver must be a string,
  the argument is converted to one.
\<close>

fun localeCompareVal :: "js_env \<Rightarrow> val \<Rightarrow> val \<Rightarrow> error + rat option" where
  "localeCompareVal env (JStr s) y = Inr (Some (localeCompare env s (toString env y)))"
| "localeCompareVal env x y = Inl TypeError"

text \<open>The comparator passed to \<^verbatim>\<open>sort\<close>; \<open>None\<close> is NaN.\<close>

fun compareFn :: "js_env \<Rightarrow> sort_option \<Rightarrow> val \<Rightarrow> val \<Rightarrow> error + rat option" where
  "compareFn env Newest a b =
     bind (getProp b ''createdAt'') (\<lambda>cb.
     bind (getProp a ''createdAt'') (\<lambda>ca. Inr (minus env cb ca)))"
| "compareFn env Oldest a b =
     bind (getProp a ''createdAt'') (\<lambda>ca.
     bind (getProp b ''createdAt'') (\<lambda>cb. Inr (minus env ca cb)))"
| "compareFn env AZ a b =
     bind (getProp a ''title'') (\<lambda>ta.
     bind (getProp b ''title'') (\<lambda>tb. localeCompareVal env ta tb))"
| "compareFn env ZA a b =
     bind (getProp b ''title'') (\<lambda>tb.
     bind (getProp a ''title'') (\<lambda>ta. localeCompareVal env tb ta))"
| "compareFn env DomainSort a b =
     bind (getProp a ''domain'') (\<lambda>da.
     bind (getProp b ''domain'') (\<lambda>db. localeCompareVal env da db))"
| "compareFn env Custom a b = Inr (Some 0)"

text \<open>
  \<^verbatim>\<open>Array.prototype.sort\<close> is stable; \<^verbatim>\<open>undefined\<close> elements go to the end without a call
  of the comparator, and a comparator result that is NaN counts as zero. Which pairs
  the engine compares is left open by the language. The model is a stable insertion
  sort: each element \<open>p\<close> is inserted into the sorted elements that stood before it, and the
  comparator is called as \<open>cmp p e\<close>, the later element first, as the engine of Chrome and
  Node calls it; \<open>p\<close> goes in front of the first \<open>e\<close> for which the result is negative.
\<close>

definition negative :: "rat option \<Rightarrow> bool" where
  "negative r = (case r of None \<Rightarrow> False | Some v \<Rightarrow> v < 0)"

fun insertE :: "('a \<Rightarrow> 'a \<Rightarrow> error + rat option) \<Rightarrow> 'a \<Rightarrow> 'a list \<Rightarrow> error + 'a list" where
  "insertE cmp p [] = Inr [p]"
| "insertE cmp p (e # es) =
     bind (cmp p e) (\<lambda>r.
       if negative r then Inr (p # e # es)
       else bind (insertE cmp p es) (\<lambda>zs. Inr (e # zs)))"

fun sortFrom ::
  "('a \<Rightarrow> 'a \<Rightarrow> error + rat option) \<Rightarrow> 'a list \<Rightarrow> 'a list \<Rightarrow> error + 'a list" where
  "sortFrom cmp acc [] = Inr acc"
| "sortFrom cmp acc (p # rest) =
     bind (insertE cmp p acc) (\<lambda>acc'. sortFrom cmp acc' rest)"

definition sortE :: "('a \<Rightarrow> 'a \<Rightarrow> error + rat option) \<Rightarrow> 'a list \<Rightarrow> error + 'a list" where
  "sortE cmp xs = sortFrom cmp [] xs"

definition arraySort :: "(val \<Rightarrow> val \<Rightarrow> error + rat option) \<Rightarrow> val list \<Rightarrow> error + val list" where
  "arraySort cmp xs =
     bind (sortE cmp (filter (\<lambda>x. x \<noteq> JUndefined) xs)) (\<lambda>ys.
       Inr (ys @ filter (\<lambda>x. x = JUndefined) xs))"

text \<open>\<^verbatim>\<open>filteredBookmarks\<close>, recomputed at every render from the state.\<close>

definition view :: "js_env \<Rightarrow> val list \<Rightarrow> string \<Rightarrow> string \<Rightarrow> sort_option \<Rightarrow> error + val list" where
  "view env collection category query option =
     bind (filterE (matchesFilter env category query) collection) (\<lambda>kept.
       arraySort (compareFn env option) kept)"

definition filteredBookmarks :: "js_env \<Rightarrow> app_state \<Rightarrow> error + val list" where
  "filteredBookmarks env s =
     view env (bookmarks s) (selectedCategory s) (searchQuery s) (sortOption s)"

text \<open>
  The same pipeline over a store of array objects, to tell the array that \<^verbatim>\<open>filter\<close>
  allocates from the array that \<^verbatim>\<open>sort\<close> reorders in place. An address is an index into
  the store; \<^verbatim>\<open>filter\<close> appends its result to the store, \<^verbatim>\<open>sort\<close> overwrites the array
  it is called on and returns its address.
\<close>

type_synonym store = "val list list"

definition storeFilter :: "store \<Rightarrow> nat \<Rightarrow> (val \<Rightarrow> error + bool) \<Rightarrow> error + store \<times> nat" where
  "storeFilter st a p = bind (filterE p (st ! a)) (\<lambda>ys. Inr (st @ [ys], length st))"

definition storeSort ::
  "store \<Rightarrow> nat \<Rightarrow> (val \<Rightarrow> val \<Rightarrow> error + rat option) \<Rightarrow> error + store \<times> nat" where
  "storeSort st a cmp = bind (arraySort cmp (st ! a)) (\<lambda>ys. Inr (st[a := ys], a))"

definition storeView ::
  "js_env \<Rightarrow> store \<Rightarrow> nat \<Rightarrow> string \<Rightarrow> string \<Rightarrow> sort_option \<Rightarrow> error + store \<times> nat" where
  "storeView env st a category query option =
     bind (storeFilter st a (matchesFilter env category query)) (\<lambda>(st1, a1).
       storeSort st1 a1 (compareFn env option))"

section \<open>Drag and drop\<close>

text \<open>
  Modelled from the spec: \<^verbatim>\<open>arrayMove\<close>, which the handler imports from the drag-and-drop
  library \<^verbatim>\<open>@dnd-kit/sortable\<close> and whose body is not among the sources. The specification
  describes a single-element move that removes the element at the source index and
  reinserts it at the target index. It is written here as the library defines it, on a
  copy of the array:
  \<^verbatim>\<open>newArray.splice(to < 0 ? newArray.length + to : to, 0, newArray.splice(from, 1)[0])\<close>.
  The first argument is evaluated before the inner call removes the element, and the
  first of no removed elements is \<^verbatim>\<open>undefined\<close>.
\<close>

definition arrayMove :: "val list \<Rightarrow> int \<Rightarrow> int \<Rightarrow> val list" where
  "arrayMove array from to =
     (let newArray = array;
          start = (if to < 0 then int (length newArray) + to else to);
          (rest, removed) = arraySplice newArray from 1 [];
          item = (case removed of [] \<Rightarrow> JUndefined | x # _ \<Rightarrow> x)
      in fst (arraySplice rest start 0 [item]))"

record drag_end_event =
  active :: unique_identifier
  over :: "unique_identifier option"

definition handleDragStart :: "app_state \<Rightarrow> unique_identifier \<Rightarrow> app_state" where
  "handleDragStart s a = s\<lparr>activeId := Some a\<rparr>"

text \<open>\<^verbatim>\<open>items.findIndex((i) => i.id === x)\<close>\<close>

definition indexOfId :: "val list \<Rightarrow> unique_identifier \<Rightarrow> error + int" where
  "indexOfId items x = findIndex (\<lambda>i. bind (getProp i ''id'') (\<lambda>v. Inr (strictEqId v x))) items"

text \<open>
  \<^verbatim>\<open>handleDragEnd\<close>: the drag marker is cleared; without a target, or with the target that
  is the source, nothing else happens; otherwise the sort option becomes \<^verbatim>\<open>custom\<close> and
  the updater of \<^verbatim>\<open>setBookmarks\<close> looks both identifiers up in the stored collection and
  moves the element. An exception of the updater is the result \<open>Inl\<close>.
\<close>

definition handleDragEnd :: "app_state \<Rightarrow> drag_end_event \<Rightarrow> error + app_state" where
  "handleDragEnd s event =
     (let s1 = s\<lparr>activeId := None\<rparr> in
      case over event of
        None \<Rightarrow> Inr s1
      | Some target \<Rightarrow>
          if active event = target then Inr s1
          else
            let s2 = (if sortOption s1 \<noteq> Custom then s1\<lparr>sortOption := Custom\<rparr> else s1) in
            bind (indexOfId (bookmarks s2) (active event)) (\<lambda>oldIndex.
            bind (indexOfId (bookmarks s2) target) (\<lambda>newIndex.
              Inr (s2\<lparr>bookmarks := arrayMove (bookmarks s2) oldIndex newIndex\<rparr>))))"

text \<open>\<^verbatim>\<open>onChange={(e) => setSortOption(e.target.value as SortOption)}\<close> of the sort selector.\<close>

definition handleSortChange :: "app_state \<Rightarrow> sort_option \<Rightarrow> app_state" where
  "handleSortChange s option = s\<lparr>sortOption := option\<rparr>"

section \<open>The vocabulary of the specification\<close>

text \<open>The value of a property where reading it does not throw.\<close>

definition propOf :: "val \<Rightarrow> string \<Rightarrow> val" where
  "propOf b k = (case getProp b k of Inl e \<Rightarrow> JUndefined | Inr v \<Rightarrow> v)"

fun is_string :: "val \<Rightarrow> bool" where
  "is_string (JStr s) = True"
| "is_string v = False"

text \<open>
  Modelled from the spec: the \<^verbatim>\<open>Bookmark\<close> interface is declared in \<^verbatim>\<open>./types\<close>, which is
  not among the sources. By the data model of the specification a bookmark is a record
  with an identity token and an absolute link target (non-empty strings), a title, a
  domain and a category (strings) and a creation timestamp (a number).
\<close>

fun is_bookmark :: "val \<Rightarrow> bool" where
  "is_bookmark (JObj kvs) =
     (is_string (propOf (JObj kvs) ''id'') \<and> truthy (propOf (JObj kvs) ''id'') \<and>
      is_string (propOf (JObj kvs) ''url'') \<and> truthy (propOf (JObj kvs) ''url'') \<and>
      is_string (propOf (JObj kvs) ''title'') \<and>
      is_string (propOf (JObj kvs) ''domain'') \<and>
      is_string (propOf (JObj kvs) ''category'') \<and>
      is_number (propOf (JObj kvs) ''createdAt''))"
| "is_bookmark v = False"

text \<open>A value whose properties can be read: anything but \<^verbatim>\<open>undefined\<close> and \<^verbatim>\<open>null\<close>.\<close>

fun readable :: "val \<Rightarrow> bool" where
  "readable JUndefined = False"
| "readable JNull = False"
| "readable v = True"

text \<open>
  The predicates of the filter. The category predicate is the one of the specification.
  \<open>queryMatches\<close> is the comparison in terms of the built-in: the lower-cased query is a
  substring of the lower-cased title or of the lower-cased domain.
\<close>

definition categoryMatches :: "string \<Rightarrow> val \<Rightarrow> bool" where
  "categoryMatches category b =
     (category = ''All Bookmarks'' \<or> propOf b ''category'' = JStr category)"

definition lowerSubstring :: "js_env \<Rightarrow> string \<Rightarrow> val \<Rightarrow> bool" where
  "lowerSubstring env query v =
     (case v of JStr s \<Rightarrow> sublist (lowerCase env query) (lowerCase env s) | _ \<Rightarrow> False)"

definition queryMatches :: "js_env \<Rightarrow> string \<Rightarrow> val \<Rightarrow> bool" where
  "queryMatches env query b =
     (lowerSubstring env query (propOf b ''title'') \<or>
      lowerSubstring env query (propOf b ''domain''))"

text \<open>
  The case-insensitive substring match of the specification, stated without any
  lower-casing: two characters are the same letter when they are equal or are the
  capital and the small form of one of the letters A to Z; two strings are equal up to
  case when they have the same letters at the same places; the query is a
  case-insensitive substring of a string when it is equal up to case to some contiguous
  part of it. Whatever counts as the same letter beyond ASCII, a part that is the query
  itself is such a part.
\<close>

definition letterPairs :: "(char \<times> char) list" where
  "letterPairs = zip ''ABCDEFGHIJKLMNOPQRSTUVWXYZ'' ''abcdefghijklmnopqrstuvwxyz''"

definition sameLetter :: "char \<Rightarrow> char \<Rightarrow> bool" where
  "sameLetter c d = (c = d \<or> (c, d) \<in> set letterPairs \<or> (d, c) \<in> set letterPairs)"

definition ciEqual :: "string \<Rightarrow> string \<Rightarrow> bool" where
  "ciEqual a b = list_all2 sameLetter a b"

definition ciSubstring :: "string \<Rightarrow> val \<Rightarrow> bool" where
  "ciSubstring query v =
     (case v of JStr s \<Rightarrow> list_ex (ciEqual query) (sublists s) | _ \<Rightarrow> False)"

definition ciMatches :: "string \<Rightarrow> val \<Rightarrow> bool" where
  "ciMatches query b =
     (ciSubstring query (propOf b ''title'') \<or> ciSubstring query (propOf b ''domain''))"

text \<open>A bookmark whose title and domain are ASCII text.\<close>

definition asciiText :: "val \<Rightarrow> bool" where
  "asciiText v = (case v of JStr s \<Rightarrow> list_all isAscii s | _ \<Rightarrow> False)"

definition asciiBookmark :: "val \<Rightarrow> bool" where
  "asciiBookmark b = (asciiText (propOf b ''title'') \<and> asciiText (propOf b ''domain''))"

text \<open>The identifier under which the drag-and-drop library knows a bookmark.\<close>

fun uidOf :: "val \<Rightarrow> unique_identifier option" where
  "uidOf (JStr s) = Some (IdString s)"
| "uidOf (JNum n) = Some (IdNumber n)"
| "uidOf v = None"

definition bookmarkUid :: "val \<Rightarrow> unique_identifier option" where
  "bookmarkUid b = uidOf (propOf b ''id'')"

text \<open>
  Reordering, in the words of the specification. \<open>firstWithId C x i\<close>: slot \<open>i\<close> is the first
  slot of \<open>C\<close> whose bookmark has the identifier \<open>x\<close>. \<open>without i xs\<close>: the list with
  the element at slot \<open>i\<close> removed. \<open>cameFrom i j k\<close>: the slot, before an element moved
  from slot \<open>i\<close> to slot \<open>j\<close>, of the element that stands at slot \<open>k\<close> afterwards.
\<close>

definition firstWithId :: "val list \<Rightarrow> unique_identifier \<Rightarrow> nat \<Rightarrow> bool" where
  "firstWithId C x i =
     (i < length C \<and> strictEqId (propOf (C ! i) ''id'') x \<and>
      (\<forall>m<i. \<not> strictEqId (propOf (C ! m) ''id'') x))"

definition without :: "nat \<Rightarrow> 'a list \<Rightarrow> 'a list" where
  "without i xs = take i xs @ drop (Suc i) xs"

definition cameFrom :: "nat \<Rightarrow> nat \<Rightarrow> nat \<Rightarrow> nat" where
  "cameFrom i j k =
     (if k = j then i
      else if i \<le> k \<and> k < j then Suc k
      else if j < k \<and> k \<le> i then k - 1
      else k)"

text \<open>
  The reading of the move under which only the elements strictly between the two slots
  change their slot: every other element but the moved one is where it was.
\<close>

definition keepsSlotUnlessBetween :: "val list \<Rightarrow> nat \<Rightarrow> nat \<Rightarrow> val list \<Rightarrow> bool" where
  "keepsSlotUnlessBetween C i j R =
     (\<forall>k<length C. k \<noteq> i \<longrightarrow> \<not> (min i j < k \<and> k < max i j) \<longrightarrow> R ! k = C ! k)"

text \<open>The identity token of a bookmark, as the import compares it.\<close>

definition idProp :: "val \<Rightarrow> val" where
  "idProp b = propOf b ''id''"

section \<open>Example data\<close>

text \<open>
  A concrete engine and a concrete collection, on which the theorems are instantiated.
  The texts of the collection are ASCII; the engine leaves any other text as it is.
\<close>

definition exampleEnv :: js_env where
  "exampleEnv = \<lparr>localeCompare = (\<lambda>x y. if x = y then 0 else 1),
     otherToNumber = (\<lambda>v. None), otherToString = (\<lambda>v. ''[object Object]''),
     otherToLowerCase = (\<lambda>s. s)\<rparr>"

text \<open>
  The capital sigma, the small sigma and the small sigma that ends a word, in UTF-8; an
  engine that lower-cases the word "A\<Sigma>" and the single letter "\<Sigma>" as ECMAScript does
  (the sigma that ends a word becomes the final one, the sigma that stands alone does
  not); and a bookmark whose title is that word.
\<close>

definition capitalSigma :: string where
  "capitalSigma = [CHR 0xCE, CHR 0xA3]"

definition smallSigma :: string where
  "smallSigma = [CHR 0xCF, CHR 0x83]"

definition finalSigma :: string where
  "finalSigma = [CHR 0xCF, CHR 0x82]"

definition wordSigma :: string where
  "wordSigma = ''A'' @ capitalSigma"

definition sigmaEnv :: js_env where
  "sigmaEnv = exampleEnv\<lparr>otherToLowerCase :=
     (\<lambda>s. if s = wordSigma then ''a'' @ finalSigma
          else if s = capitalSigma then smallSigma
          else s)\<rparr>"

definition exampleBookmark :: "string \<Rightarrow> string \<Rightarrow> string \<Rightarrow> string \<Rightarrow> rat \<Rightarrow> val" where
  "exampleBookmark i t d c n =
     JObj [(''id'', JStr i), (''url'', JStr (''https://'' @ d)), (''title'', JStr t),
           (''domain'', JStr d), (''category'', JStr c), (''createdAt'', JNum n)]"

definition exampleCollection :: "val list" where
  "exampleCollection =
     [exampleBookmark ''1'' ''Foo'' ''foo.com'' ''Websites'' 100,
      exampleBookmark ''2'' ''Bar'' ''bar.com'' ''Social'' 200,
      exampleBookmark ''3'' ''Food Blog'' ''blog.org'' ''Websites'' 150]"
definition sigmaBookmark :: val where
  "sigmaBookmark = exampleBookmark ''4'' wordSigma ''sigma.gr'' ''Learning'' 400"

definition exampleState :: app_state where
  "exampleState =
     \<lparr>bookmarks = exampleCollection, selectedCategory = ''All Bookmarks'', searchQuery = [],
      sortOption = Newest, activeId = Some (IdString ''1''), isSettingsOpen = False\<rparr>"

text \<open>A bookmark that no stored one shares its identifier with, two that share theirs, and
  an element of a file that has the three validated fields only.\<close>

definition newBookmark :: val where
  "newBookmark = exampleBookmark ''9'' ''New'' ''new.net'' ''Learning'' 300"

definition duplicateOne :: val where
  "duplicateOne = exampleBookmark ''7'' ''One'' ''one.com'' ''Websites'' 300"

definition duplicateTwo :: val where
  "duplicateTwo = exampleBookmark ''7'' ''Two'' ''two.com'' ''Social'' 400"

definition untitledBookmark :: val where
  "untitledBookmark =
     JObj [(''id'', JStr ''x''), (''url'', JStr ''https://x.com''), (''createdAt'', JNum 1)]"

section \<open>Basic facts about the helpers\<close>

lemma bind_Inl [simp]: "bind (Inl e) f = Inl e"
  by (simp add: bind_def)

lemma bind_Inr [simp]: "bind (Inr x) f = f x"
  by (simp add: bind_def)

lemma bind_eq_Inr: "bind m f = Inr y \<longleftrightarrow> (\<exists>x. m = Inr x \<and> f x = Inr y)"
  by (cases m) simp_all

lemma str_includes_sublist: "str_includes s q = sublist q s"
  by (induction s) (simp_all add: sublist_Cons_right)

lemma filterE_Inr:
  "filterE p xs = Inr ys \<Longrightarrow> ys = filter (\<lambda>x. p x = Inr True) xs"
  by (induction xs arbitrary: ys) (auto split: sum.splits if_splits)

lemma filterE_total:
  "\<forall>x\<in>set xs. p x = Inr (q x) \<Longrightarrow> filterE p xs = Inr (filter q xs)"
  by (induction xs) auto

lemma filterE_survivor:
  "filterE p xs = Inr ys \<Longrightarrow> x \<in> set ys \<Longrightarrow> p x = Inr True"
  by (drule filterE_Inr) simp

lemma insertE_mset: "insertE cmp p es = Inr zs \<Longrightarrow> mset zs = add_mset p (mset es)"
  by (induction es arbitrary: zs) (auto simp: bind_eq_Inr split: if_splits)

lemma sortFrom_mset: "sortFrom cmp acc xs = Inr ys \<Longrightarrow> mset ys = mset acc + mset xs"
proof (induction xs arbitrary: acc)
  case Nil
  then show ?case by simp
next
  case (Cons p rest)
  then obtain acc' where i: "insertE cmp p acc = Inr acc'"
    and r: "sortFrom cmp acc' rest = Inr ys"
    by (auto simp: bind_eq_Inr)
  from r have "mset ys = mset acc' + mset rest" by (rule Cons.IH)
  with insertE_mset [OF i] show ?case by simp
qed

lemma sortE_mset: "sortE cmp xs = Inr ys \<Longrightarrow> mset ys = mset xs"
  unfolding sortE_def by (drule sortFrom_mset) simp

lemma insertE_total:
  "\<forall>e\<in>set es. \<exists>r. cmp p e = Inr r \<Longrightarrow> \<exists>zs. insertE cmp p es = Inr zs"
proof (induction es)
  case Nil
  then show ?case by simp
next
  case (Cons e es)
  then obtain r zs where "cmp p e = Inr r" "insertE cmp p es = Inr zs" by auto
  then show ?case by (cases "negative r") simp_all
qed

lemma sortFrom_total:
  assumes "\<forall>x\<in>set acc \<union> set xs. \<forall>y\<in>set acc \<union> set xs. \<exists>r. cmp x y = Inr r"
  shows "\<exists>ys. sortFrom cmp acc xs = Inr ys"
  using assms
proof (induction xs arbitrary: acc)
  case Nil
  then show ?case by simp
next
  case (Cons p rest)
  then have "\<forall>e\<in>set acc. \<exists>r. cmp p e = Inr r" by simp
  then obtain acc' where i: "insertE cmp p acc = Inr acc'"
    using insertE_total [of acc cmp p] by blast
  then have "set acc' = insert p (set acc)"
    using insertE_mset [OF i] by (metis mset_eq_setD set_mset_add_mset_insert set_mset_mset)
  with Cons.prems
  have "\<forall>x\<in>set acc' \<union> set rest. \<forall>y\<in>set acc' \<union> set rest. \<exists>r. cmp x y = Inr r"
    by simp
  then obtain ys where "sortFrom cmp acc' rest = Inr ys" using Cons.IH by blast
  with i show ?case by simp
qed

lemma sortE_total:
  "\<forall>x\<in>set xs. \<forall>y\<in>set xs. \<exists>r. cmp x y = Inr r \<Longrightarrow> \<exists>ys. sortE cmp xs = Inr ys"
  unfolding sortE_def by (rule sortFrom_total) simp

lemma insertE_zero: "\<forall>e\<in>set es. cmp p e = Inr (Some 0) \<Longrightarrow> insertE cmp p es = Inr (es @ [p])"
  by (induction es) (simp_all add: negative_def)

lemma sortFrom_zero:
  "\<forall>x\<in>set acc \<union> set xs. \<forall>y\<in>set acc \<union> set xs. cmp x y = Inr (Some 0) \<Longrightarrow>
   sortFrom cmp acc xs = Inr (acc @ xs)"
proof (induction xs arbitrary: acc)
  case Nil
  then show ?case by simp
next
  case (Cons p rest)
  then have "insertE cmp p acc = Inr (acc @ [p])"
    by (intro insertE_zero) simp
  moreover have "sortFrom cmp (acc @ [p]) rest = Inr ((acc @ [p]) @ rest)"
    using Cons.prems by (intro Cons.IH) simp
  ultimately show ?case by simp
qed

lemma sortE_zero: "\<forall>x\<in>set xs. \<forall>y\<in>set xs. cmp x y = Inr (Some 0) \<Longrightarrow> sortE cmp xs = Inr xs"
  unfolding sortE_def using sortFrom_zero [of "[]" xs cmp] by simp

lemma arraySort_mset: "arraySort cmp xs = Inr ys \<Longrightarrow> mset ys = mset xs"
proof -
  assume "arraySort cmp xs = Inr ys"
  then obtain zs where zs: "sortE cmp (filter (\<lambda>x. x \<noteq> JUndefined) xs) = Inr zs"
    and ys: "ys = zs @ filter (\<lambda>x. x = JUndefined) xs"
    by (auto simp: arraySort_def bind_eq_Inr)
  have "mset zs = mset (filter (\<lambda>x. x \<noteq> JUndefined) xs)" using zs by (rule sortE_mset)
  then show ?thesis using ys by (simp add: union_commute)
qed

lemma arraySort_total:
  "\<forall>x\<in>set xs. \<forall>y\<in>set xs. \<exists>r. cmp x y = Inr r \<Longrightarrow> \<exists>ys. arraySort cmp xs = Inr ys"
  using sortE_total [of "filter (\<lambda>x. x \<noteq> JUndefined) xs" cmp]
  by (auto simp: arraySort_def bind_eq_Inr)

lemma arraySort_custom:
  "JUndefined \<notin> set xs \<Longrightarrow> arraySort (compareFn env Custom) xs = Inr xs"
proof -
  assume a: "JUndefined \<notin> set xs"
  then have 1: "filter (\<lambda>x. x \<noteq> JUndefined) xs = xs" 
    by (induction xs) auto
  from a have 2: "filter (\<lambda>x. x = JUndefined) xs = []"
    by (induction xs) auto
  show ?thesis by (simp add: arraySort_def 1 2 sortE_zero)
qed

lemma is_bookmark_props:
  assumes "is_bookmark b"
  obtains kvs i u t d c n where "b = JObj kvs"
    "getProp b ''id'' = Inr (JStr i)" "i \<noteq> []"
    "getProp b ''url'' = Inr (JStr u)" "u \<noteq> []"
    "getProp b ''title'' = Inr (JStr t)"
    "getProp b ''domain'' = Inr (JStr d)"
    "getProp b ''category'' = Inr (JStr c)"
    "getProp b ''createdAt'' = Inr (JNum n)"
proof -
  from assms obtain kvs where b: "b = JObj kvs" by (cases b) simp_all
  have str: "\<And>v. is_string v \<Longrightarrow> \<exists>s. v = JStr s" by (case_tac v) simp_all
  have num: "\<And>v. is_number v \<Longrightarrow> \<exists>n. v = JNum n" by (case_tac v) simp_all
  from assms b have p: "is_string (propOf b ''id'')" "truthy (propOf b ''id'')"
    "is_string (propOf b ''url'')" "truthy (propOf b ''url'')"
    "is_string (propOf b ''title'')" "is_string (propOf b ''domain'')"
    "is_string (propOf b ''category'')" "is_number (propOf b ''createdAt'')"
    by simp_all
  from p(1) obtain i where i: "propOf b ''id'' = JStr i" using str by blast
  from p(3) obtain u where u: "propOf b ''url'' = JStr u" using str by blast
  from p(5) obtain t where t: "propOf b ''title'' = JStr t" using str by blast
  from p(6) obtain d where d: "propOf b ''domain'' = JStr d" using str by blast
  from p(7) obtain c where c: "propOf b ''category'' = JStr c" using str by blast
  from p(8) obtain n where n: "propOf b ''createdAt'' = JNum n" using num by blast
  from p(2) i have i': "i \<noteq> []" by simp
  from p(4) u have u': "u \<noteq> []" by simp
  show ?thesis
    using b i i' u u' t d c n that [of kvs i u t d c n] by (simp add: propOf_def)
qed

lemma matchesFilter_bookmark:
  "is_bookmark b \<Longrightarrow>
   matchesFilter env K Q b = Inr (categoryMatches K b \<and> queryMatches env Q b)"
  by (erule is_bookmark_props)
     (auto simp: matchesFilter_def categoryMatches_def queryMatches_def lowerSubstring_def
        propOf_def str_includes_sublist)

lemma compareFn_bookmark:
  "is_bookmark a \<Longrightarrow> is_bookmark b \<Longrightarrow> \<exists>r. compareFn env S a b = Inr r"
  by (erule is_bookmark_props, erule is_bookmark_props) (cases S; simp)

section \<open>The view: filtering and custom order\<close>

lemma view_bookmarks:
  assumes "list_all is_bookmark C"
  shows "\<exists>vs. view env C K Q S = Inr vs \<and>
           mset vs = mset (filter (\<lambda>b. categoryMatches K b \<and> queryMatches env Q b) C)"
proof -
  let ?P = "\<lambda>b. categoryMatches K b \<and> queryMatches env Q b"
  from assms have "\<forall>b\<in>set C. matchesFilter env K Q b = Inr (?P b)"
    by (simp add: list_all_iff matchesFilter_bookmark)
  then have f: "filterE (matchesFilter env K Q) C = Inr (filter ?P C)"
    by (rule filterE_total)
  from assms have "\<forall>x\<in>set (filter ?P C). \<forall>y\<in>set (filter ?P C). \<exists>r. compareFn env S x y = Inr r"
    by (simp add: list_all_iff compareFn_bookmark)
  then obtain vs where s: "arraySort (compareFn env S) (filter ?P C) = Inr vs"
    using arraySort_total by blast
  then have "mset vs = mset (filter ?P C)" by (rule arraySort_mset)
  with f s show ?thesis by (simp add: view_def)
qed

lemma view_custom_bookmarks:
  assumes "list_all is_bookmark C"
  shows "view env C K Q Custom = Inr (filter (\<lambda>b. categoryMatches K b \<and> queryMatches env Q b) C)"
proof -
  let ?P = "\<lambda>b. categoryMatches K b \<and> queryMatches env Q b"
  from assms have "\<forall>b\<in>set C. matchesFilter env K Q b = Inr (?P b)"
    by (simp add: list_all_iff matchesFilter_bookmark)
  then have f: "filterE (matchesFilter env K Q) C = Inr (filter ?P C)"
    by (rule filterE_total)
  from assms have "JUndefined \<notin> set (filter ?P C)"
    by (auto simp: list_all_iff)
  then have "arraySort (compareFn env Custom) (filter ?P C) = Inr (filter ?P C)"
    by (rule arraySort_custom)
  with f show ?thesis by (simp add: view_def)
qed

lemma storeView_eq:
  "a < length st \<Longrightarrow> storeView env st a K Q S =
     bind (view env (st ! a) K Q S) (\<lambda>vs. Inr (st @ [vs], length st))"
  by (cases "filterE (matchesFilter env K Q) (st ! a)")
     (simp_all add: storeView_def storeFilter_def storeSort_def view_def bind_def
        split: sum.splits)

lemma lowerCase_ascii: "list_all isAscii s \<Longrightarrow> lowerCase env s = map lowerChar s"
  by (simp add: lowerCase_def)

lemma lowerCase_Nil: "lowerCase env [] = []"
  by (simp add: lowerCase_def)

lemma letterPairs_lower: "(c, d) \<in> set letterPairs \<Longrightarrow> lowerChar c = d \<and> lowerChar d = d"
  by (auto simp: letterPairs_def lowerChar_def)

lemma letterPairs_same_small:
  "(c, l) \<in> set letterPairs \<Longrightarrow> (d, l) \<in> set letterPairs \<Longrightarrow> c = d"
  by (auto simp: letterPairs_def)

lemma capital_letterPairs:
  "\<forall>c\<in>set ''ABCDEFGHIJKLMNOPQRSTUVWXYZ''. (c, lowerChar c) \<in> set letterPairs"
  by (simp add: letterPairs_def lowerChar_def)

lemma lowerChar_cases: "lowerChar c = c \<or> (c, lowerChar c) \<in> set letterPairs"
proof (cases "c \<in> set ''ABCDEFGHIJKLMNOPQRSTUVWXYZ''")
  case True
  then show ?thesis using capital_letterPairs by blast
next
  case False
  then have "lowerChar c = c" unfolding lowerChar_def by (rule if_not_P)
  then show ?thesis by simp
qed

lemma lowerChar_eq_iff: "lowerChar c = lowerChar d \<longleftrightarrow> sameLetter c d"
proof
  assume e: "lowerChar c = lowerChar d"
  consider "lowerChar c = c" "lowerChar d = d"
    | "lowerChar c = c" "(d, lowerChar d) \<in> set letterPairs"
    | "(c, lowerChar c) \<in> set letterPairs" "lowerChar d = d"
    | "(c, lowerChar c) \<in> set letterPairs" "(d, lowerChar d) \<in> set letterPairs"
    using lowerChar_cases [of c] lowerChar_cases [of d] by blast
  then show "sameLetter c d"
  proof cases
    case 1
    with e show ?thesis by (simp add: sameLetter_def)
  next
    case 2
    with e have "(d, c) \<in> set letterPairs" by simp
    then show ?thesis by (simp add: sameLetter_def)
  next
    case 3
    with e have "(c, d) \<in> set letterPairs" by simp
    then show ?thesis by (simp add: sameLetter_def)
  next
    case 4
    with e have "(c, lowerChar d) \<in> set letterPairs" by simp
    with 4 have "c = d" using letterPairs_same_small by blast
    then show ?thesis by (simp add: sameLetter_def)
  qed
next
  assume "sameLetter c d"
  then consider "c = d" | "(c, d) \<in> set letterPairs" | "(d, c) \<in> set letterPairs"
    by (auto simp: sameLetter_def)
  then show "lowerChar c = lowerChar d"
  proof cases
    case 1
    then show ?thesis by simp
  next
    case 2
    then show ?thesis using letterPairs_lower by simp
  next
    case 3
    then show ?thesis using letterPairs_lower by simp
  qed
qed

lemma map_lowerChar_eq_iff: "map lowerChar a = map lowerChar b \<longleftrightarrow> ciEqual a b"
  unfolding ciEqual_def
proof (induction a arbitrary: b)
  case Nil
  then show ?case by simp
next
  case (Cons c a)
  then show ?case by (cases b) (simp_all add: lowerChar_eq_iff)
qed

lemma sublist_lower_iff:
  "sublist (map lowerChar q) (map lowerChar s) \<longleftrightarrow> (\<exists>part. sublist part s \<and> ciEqual q part)"
proof
  assume "sublist (map lowerChar q) (map lowerChar s)"
  then obtain part where "sublist part s" and "map lowerChar q = map lowerChar part"
    using sublist_map_rightE by blast
  then show "\<exists>part. sublist part s \<and> ciEqual q part"
    using map_lowerChar_eq_iff by blast
next
  assume "\<exists>part. sublist part s \<and> ciEqual q part"
  then obtain part where p: "sublist part s" and "ciEqual q part" by blast
  then have "map lowerChar q = map lowerChar part" by (simp add: map_lowerChar_eq_iff)
  moreover have "sublist (map lowerChar part) (map lowerChar s)"
    using p by (rule map_mono_sublist)
  ultimately show "sublist (map lowerChar q) (map lowerChar s)" by simp
qed

lemma lowerSubstring_ascii:
  assumes "list_all isAscii q" and "asciiText v"
  shows "lowerSubstring env q v = ciSubstring q v"
proof -
  from assms(2) obtain s where v: "v = JStr s" and s: "list_all isAscii s"
    by (cases v) (simp_all add: asciiText_def)
  have "lowerSubstring env q v = sublist (map lowerChar q) (map lowerChar s)"
    by (simp add: lowerSubstring_def v lowerCase_ascii assms(1) s)
  also have "\<dots> = (\<exists>part. sublist part s \<and> ciEqual q part)" by (rule sublist_lower_iff)
  also have "\<dots> = ciSubstring q v" by (auto simp: ciSubstring_def v list_ex_iff)
  finally show ?thesis .
qed

lemma queryMatches_ascii:
  "list_all isAscii q \<Longrightarrow> asciiBookmark b \<Longrightarrow> queryMatches env q b = ciMatches q b"
  by (simp add: queryMatches_def ciMatches_def asciiBookmark_def lowerSubstring_ascii)

lemma exampleCollection_bookmarks: "list_all is_bookmark exampleCollection"
  by (simp add: exampleCollection_def exampleBookmark_def propOf_def)

text \<open>
  Claim C2 fails on the code outside ASCII. The title of the bookmark is the word
  "A\<Sigma>" and the query is the letter "\<Sigma>": the query is a part of the title as it stands,
  and so a case-insensitive substring of it, and every category is shown. But the
  built-in lower-cases the sigma that ends the title to the final sigma and the sigma
  of the query to the small one, so the filter drops the bookmark.
\<close>

theorem final_sigma_counterexample:
  "is_bookmark sigmaBookmark \<and>
   propOf sigmaBookmark ''title'' = JStr wordSigma \<and>
   sublist capitalSigma wordSigma \<and>
   categoryMatches ''All Bookmarks'' sigmaBookmark \<and>
   ciMatches capitalSigma sigmaBookmark \<and>
   view sigmaEnv [sigmaBookmark] ''All Bookmarks'' capitalSigma Newest = Inr []"
proof -
  have b: "is_bookmark sigmaBookmark"
    by (simp add: sigmaBookmark_def exampleBookmark_def propOf_def)
  have t: "propOf sigmaBookmark ''title'' = JStr wordSigma"
    by (simp add: sigmaBookmark_def exampleBookmark_def propOf_def)
  have d: "propOf sigmaBookmark ''domain'' = JStr ''sigma.gr''"
    by (simp add: sigmaBookmark_def exampleBookmark_def propOf_def)
  have s: "sublist capitalSigma wordSigma"
    unfolding wordSigma_def using sublist_appendI [of capitalSigma "''A''" "[]"] by simp
  have c: "categoryMatches ''All Bookmarks'' sigmaBookmark"
    by (simp add: categoryMatches_def)
  have "ciEqual capitalSigma capitalSigma"
    by (simp add: ciEqual_def sameLetter_def list_all2_same)
  with s have "ciSubstring capitalSigma (JStr wordSigma)"
    unfolding ciSubstring_def by (auto simp: list_ex_iff)
  then have m: "ciMatches capitalSigma sigmaBookmark"
    by (simp add: ciMatches_def t)
  have nq: "\<not> list_all isAscii capitalSigma"
    by (simp add: capitalSigma_def isAscii_def)
  have nt: "\<not> list_all isAscii wordSigma"
    by (simp add: wordSigma_def capitalSigma_def isAscii_def)
  have ne: "capitalSigma \<noteq> wordSigma"
    by (simp add: wordSigma_def)
  have lq: "lowerCase sigmaEnv capitalSigma = smallSigma"
    using nq ne by (simp add: lowerCase_def sigmaEnv_def)
  have lt: "lowerCase sigmaEnv wordSigma = ''a'' @ finalSigma"
    using nt by (simp add: lowerCase_def sigmaEnv_def)
  have ns: "\<not> sublist smallSigma (''a'' @ finalSigma)"
    by (simp add: smallSigma_def finalSigma_def sublist_Cons_right)
  have ld: "\<not> sublist smallSigma (lowerCase sigmaEnv ''sigma.gr'')"
    by (simp add: lowerCase_def isAscii_def lowerChar_def smallSigma_def sublist_Cons_right)
  have "\<not> queryMatches sigmaEnv capitalSigma sigmaBookmark"
    using ns ld by (simp add: queryMatches_def lowerSubstring_def t d lq lt)
  then have "matchesFilter sigmaEnv ''All Bookmarks'' capitalSigma sigmaBookmark = Inr False"
    using matchesFilter_bookmark [OF b] by simp
  then have v: "view sigmaEnv [sigmaBookmark] ''All Bookmarks'' capitalSigma Newest = Inr []"
    by (simp add: view_def arraySort_def sortE_def)
  from b t s c m v show ?thesis by simp
qed

text \<open>
  Claim C2, amended. For every collection of bookmarks, category, query and sort option
  the view is computed without an exception, and a bookmark is in the view exactly when
  it is in the collection, its category is the selected one (or \<^verbatim>\<open>'All Bookmarks'\<close> is
  selected) and the lower-cased query is a substring of its lower-cased title or of its
  lower-cased domain, lower-cased by \<^verbatim>\<open>toLowerCase\<close>. The view has every such bookmark as
  often as the collection has it, and the empty query matches every bookmark. Where the
  query, the titles and the domains are ASCII text, the bookmarks of the view are exactly
  those of the selected category of which the query is a case-insensitive substring of
  the title or of the domain.
\<close>

theorem view_filter_sound_complete:
  assumes "list_all is_bookmark C"
  shows "\<exists>vs. view env C K Q S = Inr vs \<and>
           (\<forall>b. b \<in> set vs \<longleftrightarrow> b \<in> set C \<and> categoryMatches K b \<and> queryMatches env Q b) \<and>
           mset vs = mset (filter (\<lambda>b. categoryMatches K b \<and> queryMatches env Q b) C) \<and>
           list_all (queryMatches env []) C \<and>
           (list_all isAscii Q \<and> list_all asciiBookmark C \<longrightarrow>
              (\<forall>b. b \<in> set vs \<longleftrightarrow> b \<in> set C \<and> categoryMatches K b \<and> ciMatches Q b))"
proof -
  obtain vs where vs: "view env C K Q S = Inr vs"
    and m: "mset vs = mset (filter (\<lambda>b. categoryMatches K b \<and> queryMatches env Q b) C)"
    using view_bookmarks [OF assms] by blast
  from m have "set vs = set (filter (\<lambda>b. categoryMatches K b \<and> queryMatches env Q b) C)"
    by (rule mset_eq_setD)
  then have s: "\<forall>b. b \<in> set vs \<longleftrightarrow> b \<in> set C \<and> categoryMatches K b \<and> queryMatches env Q b"
    by auto
  have e: "list_all (queryMatches env []) C"
    unfolding list_all_iff
  proof
    fix b assume "b \<in> set C"
    with assms have "is_bookmark b" by (simp add: list_all_iff)
    then show "queryMatches env [] b"
      by (rule is_bookmark_props)
         (simp add: queryMatches_def lowerSubstring_def propOf_def lowerCase_Nil)
  qed
  have a: "list_all isAscii Q \<and> list_all asciiBookmark C \<longrightarrow>
              (\<forall>b. b \<in> set vs \<longleftrightarrow> b \<in> set C \<and> categoryMatches K b \<and> ciMatches Q b)"
  proof (intro impI allI)
    fix b
    assume h: "list_all isAscii Q \<and> list_all asciiBookmark C"
    show "b \<in> set vs \<longleftrightarrow> b \<in> set C \<and> categoryMatches K b \<and> ciMatches Q b"
    proof (cases "b \<in> set C")
      case True
      with h have "asciiBookmark b" by (simp add: list_all_iff)
      with h have "queryMatches env Q b = ciMatches Q b" by (simp add: queryMatches_ascii)
      with s show ?thesis by simp
    next
      case False
      with s show ?thesis by simp
    qed
  qed
  from vs s m e a show ?thesis by blast
qed

lemma exampleCollection_ascii: "list_all asciiBookmark exampleCollection"
  by (simp add: exampleCollection_def exampleBookmark_def asciiBookmark_def asciiText_def
      propOf_def isAscii_def)

lemma example_foo_matches:
  "queryMatches exampleEnv ''FOO'' (exampleBookmark ''1'' ''Foo'' ''foo.com'' ''Websites'' 100) \<and>
   \<not> queryMatches exampleEnv ''FOO'' (exampleBookmark ''2'' ''Bar'' ''bar.com'' ''Social'' 200) \<and>
   queryMatches exampleEnv ''FOO'' (exampleBookmark ''3'' ''Food Blog'' ''blog.org'' ''Websites'' 150)"
  by (simp add: queryMatches_def lowerSubstring_def exampleBookmark_def propOf_def lowerCase_def
      isAscii_def lowerChar_def sublist_Cons_right)

lemma example_view_foo:
  "view exampleEnv exampleCollection ''Websites'' ''FOO'' Newest =
     Inr [exampleBookmark ''3'' ''Food Blog'' ''blog.org'' ''Websites'' 150,
          exampleBookmark ''1'' ''Foo'' ''foo.com'' ''Websites'' 100]"
proof -
  have c: "categoryMatches ''Websites'' (exampleBookmark ''1'' ''Foo'' ''foo.com'' ''Websites'' 100) \<and>
    \<not> categoryMatches ''Websites'' (exampleBookmark ''2'' ''Bar'' ''bar.com'' ''Social'' 200) \<and>
    categoryMatches ''Websites'' (exampleBookmark ''3'' ''Food Blog'' ''blog.org'' ''Websites'' 150)"
    by (simp add: categoryMatches_def exampleBookmark_def propOf_def)
  have "\<forall>b\<in>set exampleCollection. matchesFilter exampleEnv ''Websites'' ''FOO'' b =
      Inr (categoryMatches ''Websites'' b \<and> queryMatches exampleEnv ''FOO'' b)"
    using exampleCollection_bookmarks by (simp add: list_all_iff matchesFilter_bookmark)
  then have "filterE (matchesFilter exampleEnv ''Websites'' ''FOO'') exampleCollection =
      Inr (filter (\<lambda>b. categoryMatches ''Websites'' b \<and> queryMatches exampleEnv ''FOO'' b)
             exampleCollection)"
    by (rule filterE_total)
  then have f: "filterE (matchesFilter exampleEnv ''Websites'' ''FOO'') exampleCollection =
      Inr [exampleBookmark ''1'' ''Foo'' ''foo.com'' ''Websites'' 100,
           exampleBookmark ''3'' ''Food Blog'' ''blog.org'' ''Websites'' 150]"
    using c example_foo_matches by (simp add: exampleCollection_def)
  have n: "compareFn exampleEnv Newest
      (exampleBookmark ''3'' ''Food Blog'' ''blog.org'' ''Websites'' 150)
      (exampleBookmark ''1'' ''Foo'' ''foo.com'' ''Websites'' 100) = Inr (Some (- 50))"
    by (simp add: exampleBookmark_def minus_def)
  have u: "exampleBookmark ''1'' ''Foo'' ''foo.com'' ''Websites'' 100 \<noteq> JUndefined \<and>
    exampleBookmark ''3'' ''Food Blog'' ''blog.org'' ''Websites'' 150 \<noteq> JUndefined"
    by (simp add: exampleBookmark_def)
  have "arraySort (compareFn exampleEnv Newest)
      [exampleBookmark ''1'' ''Foo'' ''foo.com'' ''Websites'' 100,
       exampleBookmark ''3'' ''Food Blog'' ''blog.org'' ''Websites'' 150] =
      Inr [exampleBookmark ''3'' ''Food Blog'' ''blog.org'' ''Websites'' 150,
           exampleBookmark ''1'' ''Foo'' ''foo.com'' ''Websites'' 100]"
    using u by (simp add: arraySort_def sortE_def n negative_def del: compareFn.simps)
  with f show ?thesis by (simp add: view_def)
qed

theorem view_filter_sound_complete_witness:
  "list_all is_bookmark exampleCollection \<and>
   list_all isAscii ''FOO'' \<and> list_all asciiBookmark exampleCollection \<and>
   view exampleEnv exampleCollection ''Websites'' ''FOO'' Newest =
     Inr [exampleBookmark ''3'' ''Food Blog'' ''blog.org'' ''Websites'' 150,
          exampleBookmark ''1'' ''Foo'' ''foo.com'' ''Websites'' 100] \<and>
   ciMatches ''FOO'' (exampleBookmark ''1'' ''Foo'' ''foo.com'' ''Websites'' 100) \<and>
   ciMatches ''FOO'' (exampleBookmark ''3'' ''Food Blog'' ''blog.org'' ''Websites'' 150) \<and>
   \<not> ciMatches ''FOO'' (exampleBookmark ''2'' ''Bar'' ''bar.com'' ''Social'' 200)"
proof -
  have h1: "list_all is_bookmark exampleCollection" by (rule exampleCollection_bookmarks)
  have h2: "list_all isAscii ''FOO'' \<and> list_all asciiBookmark exampleCollection"
    using exampleCollection_ascii by (simp add: isAscii_def)
  obtain vs where v: "view exampleEnv exampleCollection ''Websites'' ''FOO'' Newest = Inr vs"
    and a: "\<forall>b. b \<in> set vs \<longleftrightarrow>
      b \<in> set exampleCollection \<and> categoryMatches ''Websites'' b \<and> ciMatches ''FOO'' b"
    using h2 view_filter_sound_complete [OF h1, of exampleEnv "''Websites''" "''FOO''" Newest]
    by blast
  from v have vs: "vs = [exampleBookmark ''3'' ''Food Blog'' ''blog.org'' ''Websites'' 150,
          exampleBookmark ''1'' ''Foo'' ''foo.com'' ''Websites'' 100]"
    by (simp add: example_view_foo)
  have "exampleBookmark ''1'' ''Foo'' ''foo.com'' ''Websites'' 100 \<in> set vs"
    by (simp add: vs)
  with a have m1: "ciMatches ''FOO'' (exampleBookmark ''1'' ''Foo'' ''foo.com'' ''Websites'' 100)"
    by blast
  have "exampleBookmark ''3'' ''Food Blog'' ''blog.org'' ''Websites'' 150 \<in> set vs"
    by (simp add: vs)
  with a have m3: "ciMatches ''FOO'' (exampleBookmark ''3'' ''Food Blog'' ''blog.org'' ''Websites'' 150)"
    by blast
  have "\<not> queryMatches exampleEnv ''FOO'' (exampleBookmark ''2'' ''Bar'' ''bar.com'' ''Social'' 200)"
    using example_foo_matches by simp
  moreover have "asciiBookmark (exampleBookmark ''2'' ''Bar'' ''bar.com'' ''Social'' 200)"
    using exampleCollection_ascii by (simp add: exampleCollection_def)
  ultimately have m2: "\<not> ciMatches ''FOO'' (exampleBookmark ''2'' ''Bar'' ''bar.com'' ''Social'' 200)"
    using h2 queryMatches_ascii by blast
  from h1 h2 m1 m2 m3 show ?thesis by (simp add: example_view_foo)
qed

text \<open>
  Claim C3. Under the sort option \<^verbatim>\<open>custom\<close> the view of a collection of bookmarks is the
  stored collection with the bookmarks that fail the filter left out, in the stored
  order, whatever the category and the query are. Computing the view, under any sort
  option, leaves the stored array as it was: the result is a new array of the store and
  the arrays that were there are unchanged.
\<close>

theorem view_custom_is_stored_order:
  assumes "a < length st" and "list_all is_bookmark (st ! a)"
  shows "view env (st ! a) K Q Custom =
           Inr (filter (\<lambda>b. categoryMatches K b \<and> queryMatches env Q b) (st ! a)) \<and>
         storeView env st a K Q Custom =
           Inr (st @ [filter (\<lambda>b. categoryMatches K b \<and> queryMatches env Q b) (st ! a)], length st) \<and>
         (\<forall>S st' r. storeView env st a K Q S = Inr (st', r) \<longrightarrow>
            r \<noteq> a \<and> r < length st' \<and> take (length st) st' = st \<and> st' ! a = st ! a)"
proof -
  have v: "view env (st ! a) K Q Custom =
           Inr (filter (\<lambda>b. categoryMatches K b \<and> queryMatches env Q b) (st ! a))"
    using assms(2) by (rule view_custom_bookmarks)
  have "\<And>S st' r. storeView env st a K Q S = Inr (st', r) \<Longrightarrow>
            r \<noteq> a \<and> r < length st' \<and> take (length st) st' = st \<and> st' ! a = st ! a"
    using assms(1) by (auto simp: storeView_eq bind_eq_Inr nth_append)
  with v assms(1) show ?thesis by (simp add: storeView_eq)
qed

theorem view_custom_is_stored_order_witness:
  "(0::nat) < length [exampleCollection] \<and> list_all is_bookmark ([exampleCollection] ! 0) \<and>
   view exampleEnv exampleCollection ''All Bookmarks'' ''o'' Custom =
     Inr [exampleBookmark ''1'' ''Foo'' ''foo.com'' ''Websites'' 100,
          exampleBookmark ''2'' ''Bar'' ''bar.com'' ''Social'' 200,
          exampleBookmark ''3'' ''Food Blog'' ''blog.org'' ''Websites'' 150]"
proof -
  have h1: "(0::nat) < length [exampleCollection]" by simp
  have h2: "list_all is_bookmark ([exampleCollection] ! 0)"
    using exampleCollection_bookmarks by simp
  have f: "filter (\<lambda>b. categoryMatches ''All Bookmarks'' b \<and> queryMatches exampleEnv ''o'' b)
      exampleCollection = exampleCollection"
    by (simp add: exampleCollection_def exampleBookmark_def categoryMatches_def queryMatches_def
        lowerSubstring_def propOf_def lowerCase_def isAscii_def lowerChar_def sublist_Cons_right)
  show ?thesis
    using h1 h2 view_custom_is_stored_order [OF h1 h2, of exampleEnv "''All Bookmarks''" "''o''"] f
    by (simp add: exampleCollection_def)
qed

section \<open>Facts about reordering\<close>

lemma getProp_readable: "readable b \<Longrightarrow> getProp b k = Inr (propOf b k)"
  by (cases b) (simp_all add: propOf_def)

lemma findIndex_first:
  "\<forall>x\<in>set xs. p x = Inr (q x) \<Longrightarrow> i < length xs \<Longrightarrow> q (xs ! i) \<Longrightarrow>
   \<forall>m<i. \<not> q (xs ! m) \<Longrightarrow> findIndex p xs = Inr (int i)"
proof (induction xs arbitrary: i)
  case Nil
  then show ?case by simp
next
  case (Cons x xs)
  show ?case
  proof (cases i)
    case 0
    with Cons.prems show ?thesis by simp
  next
    case (Suc n)
    with Cons.prems have nq: "\<not> q x" by auto
    from Suc Cons.prems have "\<forall>m<n. \<not> q (xs ! m)" by auto
    with Suc Cons.prems have "findIndex p xs = Inr (int n)"
      by (intro Cons.IH) simp_all
    with nq Suc Cons.prems(1) show ?thesis by simp
  qed
qed

lemma findIndex_absent:
  "\<forall>x\<in>set xs. p x = Inr (q x) \<Longrightarrow> \<forall>x\<in>set xs. \<not> q x \<Longrightarrow> findIndex p xs = Inr (- 1)"
  by (induction xs) simp_all

lemma first_hit:
  assumes "\<exists>x\<in>set xs. q x"
  shows "\<exists>i<length xs. q (xs ! i) \<and> (\<forall>m<i. \<not> q (xs ! m))"
proof -
  from assms obtain n where n: "n < length xs \<and> q (xs ! n)"
    by (auto simp: in_set_conv_nth)
  define k where "k = (LEAST i. i < length xs \<and> q (xs ! i))"
  have k: "k < length xs \<and> q (xs ! k)"
    unfolding k_def using n by (rule LeastI)
  have "\<forall>m<k. \<not> q (xs ! m)"
  proof (intro allI impI notI)
    fix m assume m: "m < k" and qm: "q (xs ! m)"
    with k have "m < length xs \<and> q (xs ! m)" by simp
    then have "k \<le> m" unfolding k_def by (rule Least_le)
    with m show False by simp
  qed
  with k show ?thesis by blast
qed

lemma indexOfId_found:
  assumes "list_all readable C" and "firstWithId C x i"
  shows "indexOfId C x = Inr (int i)"
  unfolding indexOfId_def
proof (rule findIndex_first [where q = "\<lambda>b. strictEqId (propOf b ''id'') x"])
  show "\<forall>b\<in>set C. bind (getProp b ''id'') (\<lambda>v. Inr (strictEqId v x))
          = Inr (strictEqId (propOf b ''id'') x)"
    using assms(1) by (simp add: list_all_iff getProp_readable)
qed (use assms(2) in \<open>simp_all add: firstWithId_def\<close>)

lemma present_firstWithId:
  "\<exists>b\<in>set C. strictEqId (propOf b ''id'') x \<Longrightarrow> \<exists>i. firstWithId C x i"
  using first_hit [of C "\<lambda>b. strictEqId (propOf b ''id'') x"]
  by (auto simp: firstWithId_def)

lemma indexOfId_absent:
  assumes "list_all readable C" and "\<forall>b\<in>set C. \<not> strictEqId (propOf b ''id'') x"
  shows "indexOfId C x = Inr (- 1)"
  unfolding indexOfId_def
proof (rule findIndex_absent [where q = "\<lambda>b. strictEqId (propOf b ''id'') x"])
  show "\<forall>b\<in>set C. bind (getProp b ''id'') (\<lambda>v. Inr (strictEqId v x))
          = Inr (strictEqId (propOf b ''id'') x)"
    using assms(1) by (simp add: list_all_iff getProp_readable)
qed (use assms(2) in simp)

lemma take1_drop: "i < length xs \<Longrightarrow> take (Suc 0) (drop i xs) = [xs ! i]"
  by (simp add: take_Suc_conv_app_nth)

lemma length_without: "i < length xs \<Longrightarrow> length (without i xs) = length xs - 1"
  by (simp add: without_def)

lemma arraySplice_remove_in_range:
  "i < length xs \<Longrightarrow> arraySplice xs (int i) (Suc 0) [] = (without i xs, [xs ! i])"
  by (simp add: arraySplice_def relativeStart_def Let_def without_def take1_drop)

lemma arraySplice_insert_in_range:
  "j \<le> length ys \<Longrightarrow> arraySplice ys (int j) 0 [x] = (take j ys @ [x] @ drop j ys, [])"
  by (simp add: arraySplice_def relativeStart_def Let_def)

lemma arrayMove_in_range:
  assumes "i < length xs" and "j < length xs"
  shows "arrayMove xs (int i) (int j) =
           take j (without i xs) @ [xs ! i] @ drop j (without i xs)"
proof -
  have "j \<le> length (without i xs)"
    using assms by (simp add: length_without)
  then show ?thesis
    using assms(1) by (simp add: arrayMove_def arraySplice_remove_in_range arraySplice_insert_in_range)
qed

lemma nth_without:
  "k < length xs - 1 \<Longrightarrow> i < length xs \<Longrightarrow> without i xs ! k = xs ! (if k < i then k else Suc k)"
  by (simp add: without_def nth_append min_def)

lemma length_move:
  "i < length xs \<Longrightarrow> j < length xs \<Longrightarrow>
   length (take j (without i xs) @ [xs ! i] @ drop j (without i xs)) = length xs"
  by (simp add: length_without)

lemma nth_move:
  assumes "i < length xs" and "j < length xs" and "k < length xs"
  shows "(take j (without i xs) @ [xs ! i] @ drop j (without i xs)) ! k = xs ! cameFrom i j k"
proof -
  have l: "length (without i xs) = length xs - 1"
    using assms(1) by (rule length_without)
  consider "k < j" | "k = j" | "j < k" by linarith
  then show ?thesis
  proof cases
    case 1
    with assms l have "(take j (without i xs) @ [xs ! i] @ drop j (without i xs)) ! k
        = without i xs ! k"
      by (simp add: nth_append)
    also have "\<dots> = xs ! (if k < i then k else Suc k)"
      using 1 assms by (intro nth_without) simp_all
    also have "\<dots> = xs ! cameFrom i j k"
      using 1 by (simp add: cameFrom_def)
    finally show ?thesis .
  next
    case 2
    with assms l show ?thesis
      by (simp add: nth_append cameFrom_def)
  next
    case 3
    with assms l have "(take j (without i xs) @ [xs ! i] @ drop j (without i xs)) ! k
        = without i xs ! (k - 1)"
      by (simp add: nth_append min_def nth_Cons')
    also have "\<dots> = xs ! (if k - 1 < i then k - 1 else Suc (k - 1))"
      using 3 assms by (intro nth_without) simp_all
    also have "\<dots> = xs ! cameFrom i j k"
      using 3 by (auto simp: cameFrom_def intro!: arg_cong [where f = "(!) xs"])
    finally show ?thesis .
  qed
qed

lemma without_insert:
  "j \<le> length ys \<Longrightarrow> without j (take j ys @ [x] @ drop j ys) = ys"
  by (simp add: without_def min_def)

lemma without_move:
  "i < length xs \<Longrightarrow> j < length xs \<Longrightarrow>
   without j (take j (without i xs) @ [xs ! i] @ drop j (without i xs)) = without i xs"
  by (rule without_insert) (simp add: length_without)

lemma insert_without: "i < length xs \<Longrightarrow> take i (without i xs) @ [xs ! i] @ drop i (without i xs) = xs"
  by (simp add: without_def min_def id_take_nth_drop [symmetric])

lemma arrayMove_back:
  assumes "i < length xs" and "j < length xs"
  shows "arrayMove (arrayMove xs (int i) (int j)) (int j) (int i) = xs"
proof -
  let ?M = "take j (without i xs) @ [xs ! i] @ drop j (without i xs)"
  have M: "arrayMove xs (int i) (int j) = ?M" using assms by (rule arrayMove_in_range)
  have lM: "length ?M = length xs" using assms by (rule length_move)
  have "arrayMove ?M (int j) (int i) = take i (without j ?M) @ [?M ! j] @ drop i (without j ?M)"
    using assms lM by (intro arrayMove_in_range) simp_all
  also have "without j ?M = without i xs" using assms by (rule without_move)
  also have "?M ! j = xs ! i" using nth_move [OF assms assms(2)] by (simp add: cameFrom_def)
  finally show ?thesis using M insert_without [OF assms(1)] by simp
qed

lemma arrayMove_to_end:
  assumes "i < length xs"
  shows "arrayMove xs (int i) (- 1) = without i xs @ [xs ! i]"
proof -
  have n: "nat (int (length xs) - 1) = length xs - 1"
    by linarith
  have "arraySplice (without i xs) (int (length xs) - 1) 0 [xs ! i]
      = (without i xs @ [xs ! i], [])"
    using assms by (simp add: arraySplice_def relativeStart_def Let_def length_without n)
  then show ?thesis
    using assms by (simp add: arrayMove_def arraySplice_remove_in_range)
qed

lemma arraySplice_remove_last:
  assumes "xs \<noteq> []"
  shows "arraySplice xs (- 1) (Suc 0) [] = (butlast xs, [last xs])"
proof -
  from assms have l: "0 < length xs" by simp
  have s: "relativeStart (- 1) (length xs) = length xs - 1"
    using l by (simp add: relativeStart_def)
  have d: "min (Suc 0) (length xs - (length xs - 1)) = Suc 0"
    using l by linarith
  have e: "arraySplice xs (- 1) (Suc 0) [] =
      (take (length xs - 1) xs @ [] @ drop (length xs - 1 + Suc 0) xs,
       take (Suc 0) (drop (length xs - 1) xs))"
    by (simp only: arraySplice_def Let_def s d)
  have "take (Suc 0) (drop (length xs - 1) xs) = [xs ! (length xs - 1)]"
    using l by (intro take1_drop) simp
  then have t: "take (Suc 0) (drop (length xs - 1) xs) = [last xs]"
    using assms by (simp add: last_conv_nth)
  have r: "drop (length xs - 1 + Suc 0) xs = []"
    using l by simp
  show ?thesis
    unfolding e t r by (simp add: butlast_conv_take)
qed

lemma arrayMove_from_last:
  assumes "xs \<noteq> []" and "j < length xs"
  shows "arrayMove xs (- 1) (int j) = take j (butlast xs) @ [last xs] @ drop j (butlast xs)"
proof -
  have "j \<le> length (butlast xs)" using assms by simp
  then show ?thesis
    using assms(1) by (simp add: arrayMove_def arraySplice_remove_last arraySplice_insert_in_range)
qed

lemma handleDragEnd_guard:
  "over ev = None \<or> over ev = Some (active ev) \<Longrightarrow> handleDragEnd s ev = Inr (s\<lparr>activeId := None\<rparr>)"
  by (auto simp: handleDragEnd_def)

lemma handleDragEnd_reorder:
  assumes "over ev = Some t" and "t \<noteq> active ev"
    and "indexOfId (bookmarks s) (active ev) = Inr oldIndex"
    and "indexOfId (bookmarks s) t = Inr newIndex"
  shows "handleDragEnd s ev =
     Inr (s\<lparr>bookmarks := arrayMove (bookmarks s) oldIndex newIndex,
            sortOption := Custom, activeId := None\<rparr>)"
  using assms by (cases "sortOption s = Custom") (auto simp: handleDragEnd_def Let_def)

lemma handleDragEnd_custom:
  assumes "over ev = Some t" and "t \<noteq> active ev" and "handleDragEnd s ev = Inr s'"
  shows "sortOption s' = Custom \<and> selectedCategory s' = selectedCategory s \<and>
         searchQuery s' = searchQuery s"
  using assms by (auto simp: handleDragEnd_def Let_def bind_eq_Inr split: if_splits)

lemma indexOfId_total:
  assumes "list_all readable C"
  shows "\<exists>k. indexOfId C x = Inr k"
proof (cases "\<exists>b\<in>set C. strictEqId (propOf b ''id'') x")
  case True
  then obtain i where "firstWithId C x i" using present_firstWithId by blast
  with assms show ?thesis using indexOfId_found by blast
next
  case False
  with assms show ?thesis using indexOfId_absent by blast
qed

lemma strictEqId_uidOf: "strictEqId v u \<longleftrightarrow> uidOf v = Some u"
  by (cases v; cases u) auto

lemma strictEqId_bookmarkUid: "strictEqId (propOf b ''id'') u \<longleftrightarrow> bookmarkUid b = Some u"
  by (simp add: strictEqId_uidOf bookmarkUid_def)

lemma mset_without: "i < length xs \<Longrightarrow> add_mset (xs ! i) (mset (without i xs)) = mset xs"
proof -
  assume "i < length xs"
  then have "xs = take i xs @ xs ! i # drop (Suc i) xs" by (rule id_take_nth_drop)
  then have "mset xs = mset (take i xs @ xs ! i # drop (Suc i) xs)" by simp
  then show ?thesis by (simp add: without_def)
qed

lemma mset_move:
  assumes "i < length xs"
  shows "mset (take j (without i xs) @ [xs ! i] @ drop j (without i xs)) = mset xs"
proof -
  have s: "mset (take j (without i xs)) + mset (drop j (without i xs)) = mset (without i xs)"
    using mset_append [of "take j (without i xs)" "drop j (without i xs)"] by simp
  have "mset (take j (without i xs) @ [xs ! i] @ drop j (without i xs))
      = add_mset (xs ! i) (mset (take j (without i xs)) + mset (drop j (without i xs)))"
    by simp
  also have "\<dots> = add_mset (xs ! i) (mset (without i xs))"
    by (simp only: s)
  also have "\<dots> = mset xs" using assms by (rule mset_without)
  finally show ?thesis .
qed

lemma firstWithId_distinct:
  assumes "distinct (map bookmarkUid C)" and "k < length C" and "bookmarkUid (C ! k) = Some u"
  shows "firstWithId C u k"
proof -
  have "\<forall>m<k. bookmarkUid (C ! m) \<noteq> Some u"
  proof (intro allI impI notI)
    fix m assume m: "m < k" and e: "bookmarkUid (C ! m) = Some u"
    from m assms(2) have ml: "m < length (map bookmarkUid C)" and kl: "k < length (map bookmarkUid C)"
      by simp_all
    from m assms(2,3) e have "map bookmarkUid C ! m = map bookmarkUid C ! k" by simp
    with nth_eq_iff_index_eq [OF assms(1) ml kl] have "m = k" by simp
    with m show False by simp
  qed
  with assms(2,3) show ?thesis by (simp add: firstWithId_def strictEqId_bookmarkUid)
qed

lemma indexOfId_example_1: "indexOfId exampleCollection (IdString ''1'') = Inr 0"
  by (simp add: indexOfId_def exampleCollection_def exampleBookmark_def)

lemma indexOfId_example_2: "indexOfId exampleCollection (IdString ''2'') = Inr 1"
  by (simp add: indexOfId_def exampleCollection_def exampleBookmark_def)

lemma indexOfId_example_3: "indexOfId exampleCollection (IdString ''3'') = Inr 2"
  by (simp add: indexOfId_def exampleCollection_def exampleBookmark_def)

lemma indexOfId_example_missing: "indexOfId exampleCollection (IdString ''missing'') = Inr (- 1)"
  by (simp add: indexOfId_def exampleCollection_def exampleBookmark_def)

lemma arrayMove3_0_1: "arrayMove [a, b, c] 0 1 = [b, a, c]"
  by (simp add: arrayMove_def arraySplice_def relativeStart_def)

lemma arrayMove3_0_2: "arrayMove [a, b, c] 0 2 = [b, c, a]"
  by (simp add: arrayMove_def arraySplice_def relativeStart_def)

lemma arrayMove3_0_m1: "arrayMove [a, b, c] 0 (- 1) = [b, c, a]"
  by (simp add: arrayMove_def arraySplice_def relativeStart_def)

lemma bookmarks_exampleState: "bookmarks exampleState = exampleCollection"
  by (simp add: exampleState_def)

lemma exampleState_readable: "list_all readable (bookmarks exampleState)"
  by (simp add: exampleState_def exampleCollection_def exampleBookmark_def)

lemma exampleDrag_1_3:
  "handleDragEnd exampleState \<lparr>active = IdString ''1'', over = Some (IdString ''3'')\<rparr> =
     Inr (exampleState\<lparr>bookmarks :=
            [exampleBookmark ''2'' ''Bar'' ''bar.com'' ''Social'' 200,
             exampleBookmark ''3'' ''Food Blog'' ''blog.org'' ''Websites'' 150,
             exampleBookmark ''1'' ''Foo'' ''foo.com'' ''Websites'' 100],
          sortOption := Custom, activeId := None\<rparr>)"
proof -
  have "handleDragEnd exampleState \<lparr>active = IdString ''1'', over = Some (IdString ''3'')\<rparr> =
     Inr (exampleState\<lparr>bookmarks := arrayMove (bookmarks exampleState) 0 2,
          sortOption := Custom, activeId := None\<rparr>)"
    by (rule handleDragEnd_reorder [where t = "IdString ''3''"])
       (simp_all add: bookmarks_exampleState indexOfId_example_1 indexOfId_example_3)
  then show ?thesis
    by (simp add: bookmarks_exampleState exampleCollection_def arrayMove3_0_2)
qed

lemma exampleDrag_1_2:
  "handleDragEnd exampleState \<lparr>active = IdString ''1'', over = Some (IdString ''2'')\<rparr> =
     Inr (exampleState\<lparr>bookmarks :=
            [exampleBookmark ''2'' ''Bar'' ''bar.com'' ''Social'' 200,
             exampleBookmark ''1'' ''Foo'' ''foo.com'' ''Websites'' 100,
             exampleBookmark ''3'' ''Food Blog'' ''blog.org'' ''Websites'' 150],
          sortOption := Custom, activeId := None\<rparr>)"
proof -
  have "handleDragEnd exampleState \<lparr>active = IdString ''1'', over = Some (IdString ''2'')\<rparr> =
     Inr (exampleState\<lparr>bookmarks := arrayMove (bookmarks exampleState) 0 1,
          sortOption := Custom, activeId := None\<rparr>)"
    by (rule handleDragEnd_reorder [where t = "IdString ''2''"])
       (simp_all add: bookmarks_exampleState indexOfId_example_1 indexOfId_example_2)
  then show ?thesis
    by (simp add: bookmarks_exampleState exampleCollection_def arrayMove3_0_1)
qed

lemma exampleDrag_1_missing:
  "handleDragEnd exampleState \<lparr>active = IdString ''1'', over = Some (IdString ''missing'')\<rparr> =
     Inr (exampleState\<lparr>bookmarks :=
            [exampleBookmark ''2'' ''Bar'' ''bar.com'' ''Social'' 200,
             exampleBookmark ''3'' ''Food Blog'' ''blog.org'' ''Websites'' 150,
             exampleBookmark ''1'' ''Foo'' ''foo.com'' ''Websites'' 100],
          sortOption := Custom, activeId := None\<rparr>)"
proof -
  have "handleDragEnd exampleState \<lparr>active = IdString ''1'', over = Some (IdString ''missing'')\<rparr> =
     Inr (exampleState\<lparr>bookmarks := arrayMove (bookmarks exampleState) 0 (- 1),
          sortOption := Custom, activeId := None\<rparr>)"
    by (rule handleDragEnd_reorder [where t = "IdString ''missing''"])
       (simp_all add: bookmarks_exampleState indexOfId_example_1 indexOfId_example_missing)
  then show ?thesis
    by (simp add: bookmarks_exampleState exampleCollection_def arrayMove3_0_m1)
qed

lemma example_ids_differ:
  "exampleBookmark ''2'' ''Bar'' ''bar.com'' ''Social'' 200 \<noteq>
   exampleBookmark ''1'' ''Foo'' ''foo.com'' ''Websites'' 100"
  by (simp add: exampleBookmark_def)

section \<open>Reordering by drag and drop\<close>

text \<open>
  The move of the specification, "shifting exactly the elements strictly between the two
  positions", fails where the source is dragged onto its neighbour: the target itself
  changes its slot.
\<close>

theorem drag_onto_neighbour_counterexample:
  "handleDragEnd exampleState \<lparr>active = IdString ''1'', over = Some (IdString ''2'')\<rparr> =
     Inr (exampleState\<lparr>bookmarks :=
            [exampleBookmark ''2'' ''Bar'' ''bar.com'' ''Social'' 200,
             exampleBookmark ''1'' ''Foo'' ''foo.com'' ''Websites'' 100,
             exampleBookmark ''3'' ''Food Blog'' ''blog.org'' ''Websites'' 150],
          sortOption := Custom, activeId := None\<rparr>) \<and>
   \<not> keepsSlotUnlessBetween (bookmarks exampleState) 0 1
       [exampleBookmark ''2'' ''Bar'' ''bar.com'' ''Social'' 200,
        exampleBookmark ''1'' ''Foo'' ''foo.com'' ''Websites'' 100,
        exampleBookmark ''3'' ''Food Blog'' ''blog.org'' ''Websites'' 150]"
proof -
  have "\<not> keepsSlotUnlessBetween (bookmarks exampleState) 0 1
       [exampleBookmark ''2'' ''Bar'' ''bar.com'' ''Social'' 200,
        exampleBookmark ''1'' ''Foo'' ''foo.com'' ''Websites'' 100,
        exampleBookmark ''3'' ''Food Blog'' ''blog.org'' ''Websites'' 150]"
  proof
    assume "keepsSlotUnlessBetween (bookmarks exampleState) 0 1
       [exampleBookmark ''2'' ''Bar'' ''bar.com'' ''Social'' 200,
        exampleBookmark ''1'' ''Foo'' ''foo.com'' ''Websites'' 100,
        exampleBookmark ''3'' ''Food Blog'' ''blog.org'' ''Websites'' 150]"
    then have "(1::nat) < length (bookmarks exampleState) \<longrightarrow> (1::nat) \<noteq> 0 \<longrightarrow>
        \<not> (min 0 1 < (1::nat) \<and> (1::nat) < max 0 1) \<longrightarrow>
        [exampleBookmark ''2'' ''Bar'' ''bar.com'' ''Social'' 200,
         exampleBookmark ''1'' ''Foo'' ''foo.com'' ''Websites'' 100,
         exampleBookmark ''3'' ''Food Blog'' ''blog.org'' ''Websites'' 150] ! 1
        = bookmarks exampleState ! 1"
      unfolding keepsSlotUnlessBetween_def by (rule spec)
    then have "[exampleBookmark ''2'' ''Bar'' ''bar.com'' ''Social'' 200,
        exampleBookmark ''1'' ''Foo'' ''foo.com'' ''Websites'' 100,
        exampleBookmark ''3'' ''Food Blog'' ''blog.org'' ''Websites'' 150] ! 1
        = bookmarks exampleState ! 1"
      by (simp add: bookmarks_exampleState exampleCollection_def)
    then show False
      using example_ids_differ by (simp add: bookmarks_exampleState exampleCollection_def)
  qed
  with exampleDrag_1_2 show ?thesis by simp
qed

text \<open>
  Claim C4, amended. For a collection without \<^verbatim>\<open>null\<close> elements and a drag-end event whose
  source and target identifiers are both found in the stored collection and differ, the
  handler finds the first slot \<open>i\<close> of the source and the first slot \<open>j\<close> of the target in
  the stored collection, sets the sort option to \<^verbatim>\<open>custom\<close> and stores the collection in
  which the source element stands at slot \<open>j\<close>, the elements strictly between the two
  slots and the target itself have moved by one slot towards \<open>i\<close>, and every other element
  is where it was; the elements other than the source keep their relative order. Without
  a target, or with the target equal to the source, only the drag marker is cleared.
\<close>

theorem handleDragEnd_moves_source:
  assumes "list_all readable (bookmarks s)"
    and "\<exists>b\<in>set (bookmarks s). strictEqId (propOf b ''id'') src"
    and "\<exists>b\<in>set (bookmarks s). strictEqId (propOf b ''id'') tgt"
    and "src \<noteq> tgt"
  shows "(\<exists>i j R. firstWithId (bookmarks s) src i \<and> firstWithId (bookmarks s) tgt j \<and> i \<noteq> j \<and>
            handleDragEnd s \<lparr>active = src, over = Some tgt\<rparr> =
              Inr (s\<lparr>bookmarks := R, sortOption := Custom, activeId := None\<rparr>) \<and>
            length R = length (bookmarks s) \<and> R ! j = bookmarks s ! i \<and>
            (\<forall>k<length R. R ! k = bookmarks s ! cameFrom i j k) \<and>
            without j R = without i (bookmarks s)) \<and>
         handleDragEnd s \<lparr>active = src, over = None\<rparr> = Inr (s\<lparr>activeId := None\<rparr>) \<and>
         handleDragEnd s \<lparr>active = src, over = Some src\<rparr> = Inr (s\<lparr>activeId := None\<rparr>)"
proof -
  let ?C = "bookmarks s"
  from assms(2) obtain i where i: "firstWithId ?C src i" using present_firstWithId by blast
  from assms(3) obtain j where j: "firstWithId ?C tgt j" using present_firstWithId by blast
  from i j have il: "i < length ?C" and jl: "j < length ?C" by (simp_all add: firstWithId_def)
  have ij: "i \<noteq> j"
  proof
    assume "i = j"
    with i j have "uidOf (propOf (?C ! i) ''id'') = Some src" "uidOf (propOf (?C ! i) ''id'') = Some tgt"
      by (simp_all add: firstWithId_def strictEqId_uidOf)
    with assms(4) show False by simp
  qed
  let ?R = "take j (without i ?C) @ [?C ! i] @ drop j (without i ?C)"
  have oi: "indexOfId ?C src = Inr (int i)" using assms(1) i by (rule indexOfId_found)
  have oj: "indexOfId ?C tgt = Inr (int j)" using assms(1) j by (rule indexOfId_found)
  have "handleDragEnd s \<lparr>active = src, over = Some tgt\<rparr> =
      Inr (s\<lparr>bookmarks := arrayMove ?C (int i) (int j), sortOption := Custom, activeId := None\<rparr>)"
    using assms(4) oi oj by (intro handleDragEnd_reorder [where t = tgt]) simp_all
  then have h: "handleDragEnd s \<lparr>active = src, over = Some tgt\<rparr> =
      Inr (s\<lparr>bookmarks := ?R, sortOption := Custom, activeId := None\<rparr>)"
    using il jl by (simp add: arrayMove_in_range)
  have l: "length ?R = length ?C" using il jl by (rule length_move)
  have n: "\<forall>k<length ?R. ?R ! k = ?C ! cameFrom i j k"
    using il jl l nth_move [of i ?C j] by simp
  have nj: "?R ! j = ?C ! i" using n jl l by (simp add: cameFrom_def)
  have w: "without j ?R = without i ?C" using il jl by (rule without_move)
  have 1: "\<exists>i j R. firstWithId ?C src i \<and> firstWithId ?C tgt j \<and> i \<noteq> j \<and>
            handleDragEnd s \<lparr>active = src, over = Some tgt\<rparr> =
              Inr (s\<lparr>bookmarks := R, sortOption := Custom, activeId := None\<rparr>) \<and>
            length R = length ?C \<and> R ! j = ?C ! i \<and>
            (\<forall>k<length R. R ! k = ?C ! cameFrom i j k) \<and>
            without j R = without i ?C"
    using i j ij h l nj n w by blast
  have 2: "handleDragEnd s \<lparr>active = src, over = None\<rparr> = Inr (s\<lparr>activeId := None\<rparr>)"
    by (rule handleDragEnd_guard) simp
  have 3: "handleDragEnd s \<lparr>active = src, over = Some src\<rparr> = Inr (s\<lparr>activeId := None\<rparr>)"
    by (rule handleDragEnd_guard) simp
  from 1 2 3 show ?thesis by blast
qed

theorem handleDragEnd_moves_source_witness:
  "list_all readable (bookmarks exampleState) \<and>
   (\<exists>b\<in>set (bookmarks exampleState). strictEqId (propOf b ''id'') (IdString ''1'')) \<and>
   (\<exists>b\<in>set (bookmarks exampleState). strictEqId (propOf b ''id'') (IdString ''3'')) \<and>
   IdString ''1'' \<noteq> IdString ''3'' \<and>
   handleDragEnd exampleState \<lparr>active = IdString ''1'', over = Some (IdString ''3'')\<rparr> =
     Inr (exampleState\<lparr>bookmarks :=
            [exampleBookmark ''2'' ''Bar'' ''bar.com'' ''Social'' 200,
             exampleBookmark ''3'' ''Food Blog'' ''blog.org'' ''Websites'' 150,
             exampleBookmark ''1'' ''Foo'' ''foo.com'' ''Websites'' 100],
          sortOption := Custom, activeId := None\<rparr>) \<and>
   handleDragEnd exampleState \<lparr>active = IdString ''1'', over = None\<rparr> =
     Inr (exampleState\<lparr>activeId := None\<rparr>)"
proof -
  have h1: "list_all readable (bookmarks exampleState)" by (rule exampleState_readable)
  have h2: "\<exists>b\<in>set (bookmarks exampleState). strictEqId (propOf b ''id'') (IdString ''1'')"
    by (simp add: exampleState_def exampleCollection_def exampleBookmark_def propOf_def)
  have h3: "\<exists>b\<in>set (bookmarks exampleState). strictEqId (propOf b ''id'') (IdString ''3'')"
    by (simp add: exampleState_def exampleCollection_def exampleBookmark_def propOf_def)
  have h4: "IdString ''1'' \<noteq> IdString ''3''" by simp
  have n: "handleDragEnd exampleState \<lparr>active = IdString ''1'', over = None\<rparr> =
     Inr (exampleState\<lparr>activeId := None\<rparr>)"
    using handleDragEnd_moves_source [OF h1 h2 h3 h4] by blast
  show ?thesis
    using h1 h2 h3 h4 exampleDrag_1_3 n by blast
qed

text \<open>
  A target identifier that no stored bookmark has is not ignored: the source moves to
  the last slot.
\<close>

theorem drag_onto_missing_target_counterexample:
  "indexOfId (bookmarks exampleState) (IdString ''missing'') = Inr (- 1) \<and>
   handleDragEnd exampleState \<lparr>active = IdString ''1'', over = Some (IdString ''missing'')\<rparr> =
     Inr (exampleState\<lparr>bookmarks :=
            [exampleBookmark ''2'' ''Bar'' ''bar.com'' ''Social'' 200,
             exampleBookmark ''3'' ''Food Blog'' ''blog.org'' ''Websites'' 150,
             exampleBookmark ''1'' ''Foo'' ''foo.com'' ''Websites'' 100],
          sortOption := Custom, activeId := None\<rparr>) \<and>
   [exampleBookmark ''2'' ''Bar'' ''bar.com'' ''Social'' 200,
    exampleBookmark ''3'' ''Food Blog'' ''blog.org'' ''Websites'' 150,
    exampleBookmark ''1'' ''Foo'' ''foo.com'' ''Websites'' 100] \<noteq> bookmarks exampleState"
  using exampleDrag_1_missing indexOfId_example_missing example_ids_differ
  by (simp add: bookmarks_exampleState exampleCollection_def)

text \<open>
  Claim C6, amended. A drag-end event without a target, or whose target is the source,
  is ignored: the state is as before but for the cleared drag marker, and nothing is
  thrown. On a collection without \<^verbatim>\<open>null\<close> elements no drag-end event throws. An identifier
  that no stored bookmark has is not ignored, though: \<^verbatim>\<open>findIndex\<close> yields \<open>-1\<close> for it, so a
  missing target sends the source to the last slot, and a missing source sends the last
  element to the slot of the target.
\<close>

theorem handleDragEnd_without_target:
  "(over ev = None \<or> over ev = Some (active ev) \<longrightarrow>
      handleDragEnd s ev = Inr (s\<lparr>activeId := None\<rparr>)) \<and>
   (list_all readable (bookmarks s) \<longrightarrow> (\<exists>s'. handleDragEnd s ev = Inr s')) \<and>
   (list_all readable (bookmarks s) \<and> over ev = Some t \<and> t \<noteq> active ev \<and>
    firstWithId (bookmarks s) (active ev) i \<and>
    (\<forall>b\<in>set (bookmarks s). \<not> strictEqId (propOf b ''id'') t) \<longrightarrow>
      handleDragEnd s ev =
        Inr (s\<lparr>bookmarks := without i (bookmarks s) @ [bookmarks s ! i],
               sortOption := Custom, activeId := None\<rparr>)) \<and>
   (list_all readable (bookmarks s) \<and> over ev = Some t \<and> t \<noteq> active ev \<and>
    firstWithId (bookmarks s) t j \<and>
    (\<forall>b\<in>set (bookmarks s). \<not> strictEqId (propOf b ''id'') (active ev)) \<longrightarrow>
      handleDragEnd s ev =
        Inr (s\<lparr>bookmarks := take j (butlast (bookmarks s)) @ [last (bookmarks s)] @
                              drop j (butlast (bookmarks s)),
               sortOption := Custom, activeId := None\<rparr>))"
proof (intro conjI impI)
  assume "over ev = None \<or> over ev = Some (active ev)"
  then show "handleDragEnd s ev = Inr (s\<lparr>activeId := None\<rparr>)" by (rule handleDragEnd_guard)
next
  assume r: "list_all readable (bookmarks s)"
  show "\<exists>s'. handleDragEnd s ev = Inr s'"
  proof (cases "over ev = None \<or> over ev = Some (active ev)")
    case True
    then show ?thesis using handleDragEnd_guard by blast
  next
    case False
    then obtain t' where t: "over ev = Some t'" "t' \<noteq> active ev" by auto
    from r obtain a b where "indexOfId (bookmarks s) (active ev) = Inr a"
      "indexOfId (bookmarks s) t' = Inr b"
      using indexOfId_total by blast
    with t show ?thesis using handleDragEnd_reorder by blast
  qed
next
  assume a: "list_all readable (bookmarks s) \<and> over ev = Some t \<and> t \<noteq> active ev \<and>
    firstWithId (bookmarks s) (active ev) i \<and>
    (\<forall>b\<in>set (bookmarks s). \<not> strictEqId (propOf b ''id'') t)"
  then have oi: "indexOfId (bookmarks s) (active ev) = Inr (int i)"
    using indexOfId_found by blast
  from a have ot: "indexOfId (bookmarks s) t = Inr (- 1)"
    using indexOfId_absent by blast
  from a have il: "i < length (bookmarks s)" by (simp add: firstWithId_def)
  from a oi ot have "handleDragEnd s ev =
      Inr (s\<lparr>bookmarks := arrayMove (bookmarks s) (int i) (- 1),
             sortOption := Custom, activeId := None\<rparr>)"
    by (intro handleDragEnd_reorder [where t = t]) simp_all
  then show "handleDragEnd s ev =
        Inr (s\<lparr>bookmarks := without i (bookmarks s) @ [bookmarks s ! i],
               sortOption := Custom, activeId := None\<rparr>)"
    using il by (simp add: arrayMove_to_end)
next
  assume a: "list_all readable (bookmarks s) \<and> over ev = Some t \<and> t \<noteq> active ev \<and>
    firstWithId (bookmarks s) t j \<and>
    (\<forall>b\<in>set (bookmarks s). \<not> strictEqId (propOf b ''id'') (active ev))"
  then have oj: "indexOfId (bookmarks s) t = Inr (int j)"
    using indexOfId_found by blast
  from a have oa: "indexOfId (bookmarks s) (active ev) = Inr (- 1)"
    using indexOfId_absent by blast
  from a have jl: "j < length (bookmarks s)" by (simp add: firstWithId_def)
  then have ne: "bookmarks s \<noteq> []" by auto
  from a oj oa have "handleDragEnd s ev =
      Inr (s\<lparr>bookmarks := arrayMove (bookmarks s) (- 1) (int j),
             sortOption := Custom, activeId := None\<rparr>)"
    by (intro handleDragEnd_reorder [where t = t]) simp_all
  then show "handleDragEnd s ev =
        Inr (s\<lparr>bookmarks := take j (butlast (bookmarks s)) @ [last (bookmarks s)] @
                              drop j (butlast (bookmarks s)),
               sortOption := Custom, activeId := None\<rparr>)"
    using ne jl by (simp add: arrayMove_from_last)
qed

lemma example_no_missing:
  "\<forall>b\<in>set (bookmarks exampleState). \<not> strictEqId (propOf b ''id'') (IdString ''missing'')"
  by (simp add: exampleState_def exampleCollection_def exampleBookmark_def propOf_def)

lemma example_first_1: "firstWithId (bookmarks exampleState) (IdString ''1'') 0"
  by (simp add: firstWithId_def exampleState_def exampleCollection_def exampleBookmark_def
      propOf_def)

lemma example_first_2: "firstWithId (bookmarks exampleState) (IdString ''2'') 1"
  by (simp add: firstWithId_def exampleState_def exampleCollection_def exampleBookmark_def
      propOf_def)

theorem handleDragEnd_without_target_witness:
  "(over \<lparr>active = IdString ''1'', over = None\<rparr> = None \<or>
    over \<lparr>active = IdString ''1'', over = None\<rparr> =
      Some (active \<lparr>active = IdString ''1'', over = None\<rparr>)) \<and>
   handleDragEnd exampleState \<lparr>active = IdString ''1'', over = None\<rparr> =
     Inr (exampleState\<lparr>activeId := None\<rparr>) \<and>
   list_all readable (bookmarks exampleState) \<and>
   (\<exists>s'. handleDragEnd exampleState \<lparr>active = IdString ''1'', over = Some (IdString ''2'')\<rparr>
      = Inr s') \<and>
   indexOfId (bookmarks exampleState) (IdString ''1'') = Inr 0 \<and>
   indexOfId (bookmarks exampleState) (IdString ''2'') = Inr 1 \<and>
   indexOfId (bookmarks exampleState) (IdString ''missing'') = Inr (- 1) \<and>
   IdString ''missing'' \<noteq> IdString ''1'' \<and> IdString ''2'' \<noteq> IdString ''missing'' \<and>
   handleDragEnd exampleState \<lparr>active = IdString ''1'', over = Some (IdString ''missing'')\<rparr> =
     Inr (exampleState\<lparr>bookmarks := without 0 (bookmarks exampleState) @ [bookmarks exampleState ! 0],
            sortOption := Custom, activeId := None\<rparr>) \<and>
   handleDragEnd exampleState \<lparr>active = IdString ''missing'', over = Some (IdString ''2'')\<rparr> =
     Inr (exampleState\<lparr>bookmarks := take 1 (butlast (bookmarks exampleState)) @
              [last (bookmarks exampleState)] @ drop 1 (butlast (bookmarks exampleState)),
            sortOption := Custom, activeId := None\<rparr>)"
proof -
  have h1: "over \<lparr>active = IdString ''1'', over = None\<rparr> = None \<or>
    over \<lparr>active = IdString ''1'', over = None\<rparr> =
      Some (active \<lparr>active = IdString ''1'', over = None\<rparr>)"
    by simp
  have h2: "list_all readable (bookmarks exampleState)" by (rule exampleState_readable)
  have h3: "list_all readable (bookmarks exampleState) \<and>
    over \<lparr>active = IdString ''1'', over = Some (IdString ''missing'')\<rparr> =
      Some (IdString ''missing'') \<and>
    IdString ''missing'' \<noteq> active \<lparr>active = IdString ''1'', over = Some (IdString ''missing'')\<rparr> \<and>
    firstWithId (bookmarks exampleState)
      (active \<lparr>active = IdString ''1'', over = Some (IdString ''missing'')\<rparr>) 0 \<and>
    (\<forall>b\<in>set (bookmarks exampleState). \<not> strictEqId (propOf b ''id'') (IdString ''missing''))"
    using h2 example_first_1 example_no_missing by simp
  have h4: "list_all readable (bookmarks exampleState) \<and>
    over \<lparr>active = IdString ''missing'', over = Some (IdString ''2'')\<rparr> = Some (IdString ''2'') \<and>
    IdString ''2'' \<noteq> active \<lparr>active = IdString ''missing'', over = Some (IdString ''2'')\<rparr> \<and>
    firstWithId (bookmarks exampleState) (IdString ''2'') 1 \<and>
    (\<forall>b\<in>set (bookmarks exampleState). \<not> strictEqId (propOf b ''id'')
       (active \<lparr>active = IdString ''missing'', over = Some (IdString ''2'')\<rparr>))"
    using h2 example_first_2 example_no_missing by simp
  have c1: "handleDragEnd exampleState \<lparr>active = IdString ''1'', over = None\<rparr> =
     Inr (exampleState\<lparr>activeId := None\<rparr>)"
    using h1 handleDragEnd_without_target
      [of "\<lparr>active = IdString ''1'', over = None\<rparr>" exampleState]
    by blast
  have c2: "\<exists>s'. handleDragEnd exampleState \<lparr>active = IdString ''1'', over = Some (IdString ''2'')\<rparr>
      = Inr s'"
    using h2 handleDragEnd_without_target
      [of "\<lparr>active = IdString ''1'', over = Some (IdString ''2'')\<rparr>" exampleState]
    by blast
  have c3: "handleDragEnd exampleState \<lparr>active = IdString ''1'', over = Some (IdString ''missing'')\<rparr> =
     Inr (exampleState\<lparr>bookmarks := without 0 (bookmarks exampleState) @ [bookmarks exampleState ! 0],
            sortOption := Custom, activeId := None\<rparr>)"
    using h3 handleDragEnd_without_target
      [of "\<lparr>active = IdString ''1'', over = Some (IdString ''missing'')\<rparr>" exampleState
          "IdString ''missing''" 0]
    by blast
  have c4: "handleDragEnd exampleState \<lparr>active = IdString ''missing'', over = Some (IdString ''2'')\<rparr> =
     Inr (exampleState\<lparr>bookmarks := take 1 (butlast (bookmarks exampleState)) @
              [last (bookmarks exampleState)] @ drop 1 (butlast (bookmarks exampleState)),
            sortOption := Custom, activeId := None\<rparr>)"
    using h4 handleDragEnd_without_target
      [of "\<lparr>active = IdString ''missing'', over = Some (IdString ''2'')\<rparr>" exampleState
          "IdString ''2''" _ 1]
    by blast
  have i: "indexOfId (bookmarks exampleState) (IdString ''1'') = Inr 0 \<and>
   indexOfId (bookmarks exampleState) (IdString ''2'') = Inr 1 \<and>
   indexOfId (bookmarks exampleState) (IdString ''missing'') = Inr (- 1)"
    by (simp add: bookmarks_exampleState indexOfId_example_1 indexOfId_example_2
        indexOfId_example_missing)
  from h1 h2 i c1 c2 c3 c4 show ?thesis by simp
qed

section \<open>The sort option after a reorder\<close>

lemma view_custom_Inr:
  assumes "view env C K Q Custom = Inr vs"
  shows "vs = filter (\<lambda>b. matchesFilter env K Q b = Inr True) C"
proof -
  from assms obtain kept where k: "filterE (matchesFilter env K Q) C = Inr kept"
    and s: "arraySort (compareFn env Custom) kept = Inr vs"
    by (auto simp: view_def bind_eq_Inr)
  have "JUndefined \<notin> set kept"
  proof
    assume "JUndefined \<in> set kept"
    with k have "matchesFilter env K Q JUndefined = Inr True" by (rule filterE_survivor)
    then show False by (simp add: matchesFilter_def bind_def split: if_splits)
  qed
  then have "arraySort (compareFn env Custom) kept = Inr kept" by (rule arraySort_custom)
  with s have "vs = kept" by simp
  with k show ?thesis using filterE_Inr by blast
qed

lemma handleImportFile_sortOption: "sortOption (fst (handleImportFile s p c)) = sortOption s"
  by (cases p; cases c)
     (auto simp: handleImportFile_def importParsed_def bind_def split: sum.splits val.splits)

lemma handleDragEnd_from_custom:
  "sortOption s = Custom \<Longrightarrow> handleDragEnd s ev = Inr s' \<Longrightarrow> sortOption s' = Custom"
  by (auto simp: handleDragEnd_def Let_def bind_eq_Inr split: option.splits if_splits)

text \<open>
  Claim C5. After a drag-end event that passes the guard and reorders the collection,
  the sort option is \<^verbatim>\<open>custom\<close>, whatever it was before; the view of the new state is the
  view under \<^verbatim>\<open>custom\<close>, that is the stored collection, filtered, in the stored order. The
  sort option stays \<^verbatim>\<open>custom\<close> through later drags and imports; only the sort selector
  sets another one.
\<close>

theorem reorder_forces_custom:
  assumes "over ev = Some t" and "t \<noteq> active ev" and "handleDragEnd s ev = Inr s'"
  shows "sortOption s' = Custom \<and>
         filteredBookmarks env s' =
           view env (bookmarks s') (selectedCategory s) (searchQuery s) Custom \<and>
         (\<forall>vs. filteredBookmarks env s' = Inr vs \<longrightarrow>
            vs = filter (\<lambda>b. matchesFilter env (selectedCategory s) (searchQuery s) b = Inr True)
                   (bookmarks s')) \<and>
         (list_all is_bookmark (bookmarks s') \<longrightarrow>
            filteredBookmarks env s' =
              Inr (filter (\<lambda>b. categoryMatches (selectedCategory s) b \<and>
                               queryMatches env (searchQuery s) b) (bookmarks s'))) \<and>
         sortOption (handleDragStart s' a) = Custom \<and>
         sortOption (fst (handleImportFile s' p c)) = Custom \<and>
         (\<forall>ev' s''. handleDragEnd s' ev' = Inr s'' \<longrightarrow> sortOption s'' = Custom) \<and>
         sortOption (handleSortChange s' option) = option"
proof -
  from assms have c: "sortOption s' = Custom" and k: "selectedCategory s' = selectedCategory s"
    and q: "searchQuery s' = searchQuery s"
    using handleDragEnd_custom by blast+
  have v: "filteredBookmarks env s' =
           view env (bookmarks s') (selectedCategory s) (searchQuery s) Custom"
    by (simp add: filteredBookmarks_def c k q)
  have 1: "\<forall>vs. filteredBookmarks env s' = Inr vs \<longrightarrow>
            vs = filter (\<lambda>b. matchesFilter env (selectedCategory s) (searchQuery s) b = Inr True)
                   (bookmarks s')"
    unfolding v using view_custom_Inr by blast
  have 2: "list_all is_bookmark (bookmarks s') \<longrightarrow>
            filteredBookmarks env s' =
              Inr (filter (\<lambda>b. categoryMatches (selectedCategory s) b \<and>
                               queryMatches env (searchQuery s) b) (bookmarks s'))"
    unfolding v using view_custom_bookmarks by blast
  have 3: "sortOption (handleDragStart s' a) = Custom"
    by (simp add: handleDragStart_def c)
  have 4: "sortOption (fst (handleImportFile s' p c)) = Custom"
    by (simp add: handleImportFile_sortOption c)
  have 5: "\<forall>ev' s''. handleDragEnd s' ev' = Inr s'' \<longrightarrow> sortOption s'' = Custom"
    using c handleDragEnd_from_custom by blast
  have 6: "sortOption (handleSortChange s' option) = option"
    by (simp add: handleSortChange_def)
  from c v 1 2 3 4 5 6 show ?thesis by blast
qed

theorem reorder_forces_custom_witness:
  "over \<lparr>active = IdString ''1'', over = Some (IdString ''3'')\<rparr> = Some (IdString ''3'') \<and>
   IdString ''3'' \<noteq> active \<lparr>active = IdString ''1'', over = Some (IdString ''3'')\<rparr> \<and>
   handleDragEnd exampleState \<lparr>active = IdString ''1'', over = Some (IdString ''3'')\<rparr> =
     Inr (exampleState\<lparr>bookmarks :=
            [exampleBookmark ''2'' ''Bar'' ''bar.com'' ''Social'' 200,
             exampleBookmark ''3'' ''Food Blog'' ''blog.org'' ''Websites'' 150,
             exampleBookmark ''1'' ''Foo'' ''foo.com'' ''Websites'' 100],
          sortOption := Custom, activeId := None\<rparr>) \<and>
   sortOption exampleState = Newest \<and>
   sortOption (exampleState\<lparr>bookmarks :=
            [exampleBookmark ''2'' ''Bar'' ''bar.com'' ''Social'' 200,
             exampleBookmark ''3'' ''Food Blog'' ''blog.org'' ''Websites'' 150,
             exampleBookmark ''1'' ''Foo'' ''foo.com'' ''Websites'' 100],
          sortOption := Custom, activeId := None\<rparr>) = Custom \<and>
   filteredBookmarks exampleEnv (exampleState\<lparr>bookmarks :=
            [exampleBookmark ''2'' ''Bar'' ''bar.com'' ''Social'' 200,
             exampleBookmark ''3'' ''Food Blog'' ''blog.org'' ''Websites'' 150,
             exampleBookmark ''1'' ''Foo'' ''foo.com'' ''Websites'' 100],
          sortOption := Custom, activeId := None\<rparr>) =
     view exampleEnv [exampleBookmark ''2'' ''Bar'' ''bar.com'' ''Social'' 200,
             exampleBookmark ''3'' ''Food Blog'' ''blog.org'' ''Websites'' 150,
             exampleBookmark ''1'' ''Foo'' ''foo.com'' ''Websites'' 100]
       (selectedCategory exampleState) (searchQuery exampleState) Custom"
proof -
  have h1: "over \<lparr>active = IdString ''1'', over = Some (IdString ''3'')\<rparr> = Some (IdString ''3'')"
    by simp
  have h2: "IdString ''3'' \<noteq> active \<lparr>active = IdString ''1'', over = Some (IdString ''3'')\<rparr>"
    by simp
  have n: "sortOption exampleState = Newest" by (simp add: exampleState_def)
  show ?thesis
    using h1 h2 exampleDrag_1_3 n
      reorder_forces_custom [OF h1 h2 exampleDrag_1_3, of exampleEnv]
    by simp
qed

section \<open>Moving a bookmark and moving it back\<close>

lemma set_move:
  "i < length xs \<Longrightarrow> set (take j (without i xs) @ [xs ! i] @ drop j (without i xs)) = set xs"
  using mset_move [of i xs j] by (rule mset_eq_setD)

lemma distinct_move:
  assumes "i < length xs" and "distinct (map f xs)"
  shows "distinct (map f (take j (without i xs) @ [xs ! i] @ drop j (without i xs)))"
proof -
  have "mset (map f (take j (without i xs) @ [xs ! i] @ drop j (without i xs))) = mset (map f xs)"
    using mset_move [OF assms(1), of j] by (metis mset_map)
  then show ?thesis using assms(2) by (metis mset_eq_imp_distinct_iff)
qed

text \<open>
  Claim C7. Let the bookmarks of a collection have pairwise different identifiers
  (strings or numbers). Dragging the bookmark of slot \<open>i\<close> onto the bookmark of slot \<open>j\<close>
  puts it at slot \<open>j\<close>; dragging it from there onto the bookmark that now stands at slot
  \<open>i\<close> gives the collection that was stored at first.
\<close>

theorem reorder_round_trip:
  assumes "list_all readable (bookmarks s)"
    and "list_all (\<lambda>b. bookmarkUid b \<noteq> None) (bookmarks s)"
    and "distinct (map bookmarkUid (bookmarks s))"
    and "i < length (bookmarks s)" and "j < length (bookmarks s)"
    and "bookmarkUid (bookmarks s ! i) = Some x"
    and "bookmarkUid (bookmarks s ! j) = Some t"
  shows "\<exists>s1 t' s2.
           handleDragEnd s \<lparr>active = x, over = Some t\<rparr> = Inr s1 \<and>
           bookmarks s1 ! j = bookmarks s ! i \<and>
           bookmarkUid (bookmarks s1 ! i) = Some t' \<and>
           handleDragEnd s1 \<lparr>active = x, over = Some t'\<rparr> = Inr s2 \<and>
           bookmarks s2 = bookmarks s"
proof (cases "i = j")
  case True
  with assms(6,7) have xt: "t = x" by simp
  let ?s1 = "s\<lparr>activeId := None\<rparr>"
  have 1: "handleDragEnd s \<lparr>active = x, over = Some t\<rparr> = Inr ?s1"
    using xt by (intro handleDragEnd_guard) simp
  have 2: "handleDragEnd ?s1 \<lparr>active = x, over = Some x\<rparr> = Inr (?s1\<lparr>activeId := None\<rparr>)"
    by (intro handleDragEnd_guard) simp
  from 1 2 True assms(6) show ?thesis by fastforce
next
  case False
  let ?C = "bookmarks s"
  let ?M = "take j (without i ?C) @ [?C ! i] @ drop j (without i ?C)"
  let ?s1 = "s\<lparr>bookmarks := ?M, sortOption := Custom, activeId := None\<rparr>"
  have fi: "firstWithId ?C x i" using assms(3,4,6) by (rule firstWithId_distinct)
  have fj: "firstWithId ?C t j" using assms(3,5,7) by (rule firstWithId_distinct)
  have xt: "t \<noteq> x"
  proof
    assume "t = x"
    with fi fj have "i = j"
      by (metis firstWithId_def linorder_neqE_nat)
    with False show False by simp
  qed
  have "handleDragEnd s \<lparr>active = x, over = Some t\<rparr> =
      Inr (s\<lparr>bookmarks := arrayMove ?C (int i) (int j), sortOption := Custom, activeId := None\<rparr>)"
    using xt indexOfId_found [OF assms(1) fi] indexOfId_found [OF assms(1) fj]
    by (intro handleDragEnd_reorder [where t = t]) simp_all
  then have 1: "handleDragEnd s \<lparr>active = x, over = Some t\<rparr> = Inr ?s1"
    using assms(4,5) by (simp add: arrayMove_in_range)
  have lM: "length ?M = length ?C" using assms(4,5) by (rule length_move)
  have sM: "set ?M = set ?C" using assms(4) by (rule set_move)
  have rM: "list_all readable ?M" using assms(1) sM by (simp only: list_all_iff)
  have dM: "distinct (map bookmarkUid ?M)" using assms(4,3) by (rule distinct_move)
  have Mj: "?M ! j = ?C ! i" using nth_move [OF assms(4,5,5)] by (simp add: cameFrom_def)
  have "?M ! i \<in> set ?C" using sM lM assms(4) by (metis nth_mem)
  with assms(2) obtain t' where t': "bookmarkUid (?M ! i) = Some t'"
    by (auto simp: list_all_iff)
  have fMj: "firstWithId ?M x j"
    using dM lM assms(5,6) Mj by (intro firstWithId_distinct) simp_all
  have fMi: "firstWithId ?M t' i"
    using dM lM assms(4) t' by (intro firstWithId_distinct) simp_all
  have t'x: "t' \<noteq> x"
  proof
    assume "t' = x"
    with fMi fMj have "i = j"
      by (metis firstWithId_def linorder_neqE_nat)
    with False show False by simp
  qed
  have "handleDragEnd ?s1 \<lparr>active = x, over = Some t'\<rparr> =
      Inr (?s1\<lparr>bookmarks := arrayMove (bookmarks ?s1) (int j) (int i),
               sortOption := Custom, activeId := None\<rparr>)"
    using t'x indexOfId_found [OF rM fMj] indexOfId_found [OF rM fMi]
    by (intro handleDragEnd_reorder [where t = t']) simp_all
  moreover have "arrayMove ?M (int j) (int i) = ?C"
    using arrayMove_back [OF assms(4,5)] assms(4,5) by (simp add: arrayMove_in_range)
  ultimately have 2: "handleDragEnd ?s1 \<lparr>active = x, over = Some t'\<rparr> =
      Inr (?s1\<lparr>bookmarks := ?C, sortOption := Custom, activeId := None\<rparr>)"
    by simp
  have 3: "bookmarks ?s1 ! j = ?C ! i" using Mj by simp
  have 4: "bookmarkUid (bookmarks ?s1 ! i) = Some t'" using t' by simp
  have 5: "bookmarks (?s1\<lparr>bookmarks := ?C, sortOption := Custom, activeId := None\<rparr>) = ?C"
    by simp
  from 1 2 3 4 5 show ?thesis by blast
qed

theorem reorder_round_trip_witness:
  "list_all readable (bookmarks exampleState) \<and>
   list_all (\<lambda>b. bookmarkUid b \<noteq> None) (bookmarks exampleState) \<and>
   distinct (map bookmarkUid (bookmarks exampleState)) \<and>
   0 < length (bookmarks exampleState) \<and> 2 < length (bookmarks exampleState) \<and>
   bookmarkUid (bookmarks exampleState ! 0) = Some (IdString ''1'') \<and>
   bookmarkUid (bookmarks exampleState ! 2) = Some (IdString ''3'') \<and>
   (\<exists>s1 t' s2.
      handleDragEnd exampleState \<lparr>active = IdString ''1'', over = Some (IdString ''3'')\<rparr> = Inr s1 \<and>
      bookmarks s1 ! 2 = bookmarks exampleState ! 0 \<and>
      bookmarkUid (bookmarks s1 ! 0) = Some t' \<and>
      handleDragEnd s1 \<lparr>active = IdString ''1'', over = Some t'\<rparr> = Inr s2 \<and>
      bookmarks s2 = bookmarks exampleState)"
proof -
  have h1: "list_all readable (bookmarks exampleState)" by (rule exampleState_readable)
  have h2: "list_all (\<lambda>b. bookmarkUid b \<noteq> None) (bookmarks exampleState)"
    by (simp add: exampleState_def exampleCollection_def exampleBookmark_def bookmarkUid_def
        propOf_def)
  have h3: "distinct (map bookmarkUid (bookmarks exampleState))"
    by (simp add: exampleState_def exampleCollection_def exampleBookmark_def bookmarkUid_def
        propOf_def)
  have h4: "0 < length (bookmarks exampleState)"
    by (simp add: exampleState_def exampleCollection_def)
  have h5: "2 < length (bookmarks exampleState)"
    by (simp add: exampleState_def exampleCollection_def)
  have h6: "bookmarkUid (bookmarks exampleState ! 0) = Some (IdString ''1'')"
    by (simp add: exampleState_def exampleCollection_def exampleBookmark_def bookmarkUid_def
        propOf_def)
  have h7: "bookmarkUid (bookmarks exampleState ! 2) = Some (IdString ''3'')"
    by (simp add: exampleState_def exampleCollection_def exampleBookmark_def bookmarkUid_def
        propOf_def)
  from h1 h2 h3 h4 h5 h6 h7 reorder_round_trip [OF h1 h2 h3 h4 h5 h6 h7]
  show ?thesis by blast
qed

section \<open>Import: merge laws and failures\<close>

lemma every_all: "\<forall>x\<in>set xs. p x = Inr True \<Longrightarrow> every p xs = Inr True"
  by (induction xs) simp_all

lemma every_Inr_True: "every p xs = Inr True \<Longrightarrow> \<forall>x\<in>set xs. p x = Inr True"
  by (induction xs) (auto split: sum.splits if_splits)

lemma every_False:
  "\<forall>x\<in>set xs. \<exists>b. p x = Inr b \<Longrightarrow> \<exists>x\<in>set xs. p x = Inr False \<Longrightarrow> every p xs = Inr False"
  by (induction xs) (auto split: sum.splits)

lemma mapE_total: "\<forall>x\<in>set xs. f x = Inr (g x) \<Longrightarrow> mapE f xs = Inr (map g xs)"
  by (induction xs) simp_all

lemma isValidElem_readable: "isValidElem b = Inr ok \<Longrightarrow> readable b"
  by (cases b) (simp_all add: isValidElem_def)

lemma readable_isValidElem: "readable b \<Longrightarrow> \<exists>ok. isValidElem b = Inr ok"
  by (auto simp: isValidElem_def getProp_readable)

lemma is_bookmark_readable: "is_bookmark b \<Longrightarrow> readable b"
  by (cases b) simp_all

lemma isValidElem_bookmark: "is_bookmark b \<Longrightarrow> isValidElem b = Inr True"
  by (erule is_bookmark_props) (simp add: isValidElem_def)

lemma idsOf_readable: "list_all readable C \<Longrightarrow> idsOf C = Inr (map idProp C)"
  unfolding idsOf_def
  by (rule mapE_total) (simp add: list_all_iff getProp_readable idProp_def)

lemma newBookmarks_readable:
  "list_all readable B \<Longrightarrow>
   newBookmarks ids B = Inr (filter (\<lambda>b. \<not> has ids (idProp b)) B)"
  unfolding newBookmarks_def
  by (rule filterE_total) (simp add: list_all_iff getProp_readable idProp_def)

lemma import_valid:
  assumes "list_all readable (bookmarks s)" and "every isValidElem B = Inr True"
  shows "handleImportFile s (Inr (JArr B)) True =
     (s\<lparr>bookmarks := bookmarks s @ filter (\<lambda>b. \<not> has (map idProp (bookmarks s)) (idProp b)) B,
        isSettingsOpen := False\<rparr>,
      Some (Imported (length (filter (\<lambda>b. \<not> has (map idProp (bookmarks s)) (idProp b)) B))))"
proof -
  from assms(2) have "\<forall>b\<in>set B. isValidElem b = Inr True" by (rule every_Inr_True)
  then have "list_all readable B"
    using isValidElem_readable by (auto simp: list_all_iff)
  then have n: "newBookmarks (map idProp (bookmarks s)) B =
      Inr (filter (\<lambda>b. \<not> has (map idProp (bookmarks s)) (idProp b)) B)"
    by (rule newBookmarks_readable)
  show ?thesis
    by (simp add: handleImportFile_def importParsed_def assms(2) idsOf_readable [OF assms(1)] n)
qed

lemma has_string: "has ids (JStr i) \<longleftrightarrow> JStr i \<in> set ids"
proof -
  have "\<And>c. sameValueZero c (JStr i) \<longleftrightarrow> c = JStr i"
    by (case_tac c) simp_all
  then show ?thesis by (simp add: has_def list_ex_iff)
qed

lemma idProp_bookmark: "is_bookmark b \<Longrightarrow> \<exists>i. idProp b = JStr i"
  by (erule is_bookmark_props) (simp add: idProp_def propOf_def)

lemma has_bookmark: "is_bookmark b \<Longrightarrow> has ids (idProp b) \<longleftrightarrow> idProp b \<in> set ids"
  using idProp_bookmark [of b] has_string by auto

lemma import_bookmarks:
  assumes "list_all readable (bookmarks s)" and "list_all is_bookmark B"
  shows "handleImportFile s (Inr (JArr B)) True =
     (s\<lparr>bookmarks := bookmarks s @ filter (\<lambda>b. idProp b \<notin> idProp ` set (bookmarks s)) B,
        isSettingsOpen := False\<rparr>,
      Some (Imported (length (filter (\<lambda>b. idProp b \<notin> idProp ` set (bookmarks s)) B))))"
proof -
  from assms(2) have v: "every isValidElem B = Inr True"
    by (intro every_all) (simp add: list_all_iff isValidElem_bookmark)
  have "filter (\<lambda>b. \<not> has (map idProp (bookmarks s)) (idProp b)) B
      = filter (\<lambda>b. idProp b \<notin> idProp ` set (bookmarks s)) B"
    using assms(2) by (intro filter_cong) (simp_all add: list_all_iff has_bookmark)
  then show ?thesis using import_valid [OF assms(1) v] by simp
qed

text \<open>
  Claim C8. Importing a collection of bookmarks into itself adds nothing: the alert
  counts no new bookmark and the stored collection stays as it was. Importing a
  collection \<open>B\<close> of bookmarks into a collection \<open>A\<close> of bookmarks that shares no identifier
  with it stores \<open>A\<close> followed by \<open>B\<close>, of length \<open>|A| + |B|\<close>, and counts \<open>|B|\<close> new bookmarks.
\<close>

theorem merge_identity_and_union:
  "(list_all is_bookmark C \<longrightarrow>
      handleImportFile (s\<lparr>bookmarks := C\<rparr>) (Inr (JArr C)) True =
        (s\<lparr>bookmarks := C, isSettingsOpen := False\<rparr>, Some (Imported 0))) \<and>
   (list_all is_bookmark A \<and> list_all is_bookmark B \<and>
    idProp ` set A \<inter> idProp ` set B = {} \<longrightarrow>
      handleImportFile (s\<lparr>bookmarks := A\<rparr>) (Inr (JArr B)) True =
        (s\<lparr>bookmarks := A @ B, isSettingsOpen := False\<rparr>, Some (Imported (length B))) \<and>
      length (A @ B) = length A + length B)"
proof (rule conjI; rule impI)
  assume c: "list_all is_bookmark C"
  then have r: "list_all readable (bookmarks (s\<lparr>bookmarks := C\<rparr>))"
    by (simp add: list_all_iff is_bookmark_readable)
  have "filter (\<lambda>b. idProp b \<notin> idProp ` set C) C = []"
    by (simp add: filter_empty_conv)
  then show "handleImportFile (s\<lparr>bookmarks := C\<rparr>) (Inr (JArr C)) True =
        (s\<lparr>bookmarks := C, isSettingsOpen := False\<rparr>, Some (Imported 0))"
    using import_bookmarks [OF r c] by simp
next
  assume a: "list_all is_bookmark A \<and> list_all is_bookmark B \<and>
    idProp ` set A \<inter> idProp ` set B = {}"
  then have r: "list_all readable (bookmarks (s\<lparr>bookmarks := A\<rparr>))"
    by (simp add: list_all_iff is_bookmark_readable)
  from a have "filter (\<lambda>b. idProp b \<notin> idProp ` set A) B = B"
    by (auto simp: filter_id_conv)
  then show "handleImportFile (s\<lparr>bookmarks := A\<rparr>) (Inr (JArr B)) True =
        (s\<lparr>bookmarks := A @ B, isSettingsOpen := False\<rparr>, Some (Imported (length B))) \<and>
      length (A @ B) = length A + length B"
    using a import_bookmarks [OF r, of B] by simp
qed

lemma exampleBookmark_is_bookmark: "i \<noteq> [] \<Longrightarrow> is_bookmark (exampleBookmark i t d c n)"
  by (simp add: exampleBookmark_def propOf_def)

lemma idProp_exampleBookmark: "idProp (exampleBookmark i t d c n) = JStr i"
  by (simp add: exampleBookmark_def idProp_def propOf_def)

lemma idProp_exampleCollection: "map idProp exampleCollection = [JStr ''1'', JStr ''2'', JStr ''3'']"
  by (simp add: exampleCollection_def idProp_exampleBookmark)

theorem merge_identity_and_union_witness:
  "list_all is_bookmark exampleCollection \<and>
   handleImportFile (exampleState\<lparr>bookmarks := exampleCollection\<rparr>)
       (Inr (JArr exampleCollection)) True =
     (exampleState\<lparr>bookmarks := exampleCollection, isSettingsOpen := False\<rparr>,
      Some (Imported 0)) \<and>
   (list_all is_bookmark exampleCollection \<and> list_all is_bookmark [newBookmark] \<and>
    idProp ` set exampleCollection \<inter> idProp ` set [newBookmark] = {}) \<and>
   handleImportFile (exampleState\<lparr>bookmarks := exampleCollection\<rparr>)
       (Inr (JArr [newBookmark])) True =
     (exampleState\<lparr>bookmarks := exampleCollection @ [newBookmark], isSettingsOpen := False\<rparr>,
      Some (Imported (length [newBookmark])))"
proof -
  have h1: "list_all is_bookmark exampleCollection" by (rule exampleCollection_bookmarks)
  have "idProp ` set exampleCollection = {JStr ''1'', JStr ''2'', JStr ''3''}"
    using idProp_exampleCollection by (metis list.set_map list.simps(15) empty_set)
  then have h2: "list_all is_bookmark exampleCollection \<and> list_all is_bookmark [newBookmark] \<and>
    idProp ` set exampleCollection \<inter> idProp ` set [newBookmark] = {}"
    using h1 by (simp add: newBookmark_def exampleBookmark_is_bookmark idProp_exampleBookmark)
  from h1 h2
    merge_identity_and_union [of exampleCollection exampleState exampleCollection "[newBookmark]"]
  show ?thesis by blast
qed

lemma import_keeps_distinct_ids:
  assumes "list_all readable (bookmarks s)" and "list_all is_bookmark B"
    and "distinct (map idProp (bookmarks s))" and "distinct (map idProp B)"
  shows "distinct (map idProp (bookmarks (fst (handleImportFile s (Inr (JArr B)) True))))"
proof -
  let ?new = "filter (\<lambda>b. idProp b \<notin> idProp ` set (bookmarks s)) B"
  have "distinct (map idProp ?new)" using assms(4) by (rule distinct_map_filter)
  moreover have "idProp ` set (bookmarks s) \<inter> idProp ` set ?new = {}"
  proof (rule ccontr)
    assume "idProp ` set (bookmarks s) \<inter> idProp ` set ?new \<noteq> {}"
    then obtain v where v: "v \<in> idProp ` set (bookmarks s)" and "v \<in> idProp ` set ?new"
      by blast
    then obtain b where "b \<in> set ?new" and "v = idProp b" by blast
    then have "v \<notin> idProp ` set (bookmarks s)" by simp
    with v show False by simp
  qed
  ultimately have "distinct (map idProp (bookmarks s @ ?new))"
    using assms(3) by simp
  then show ?thesis by (simp add: import_bookmarks [OF assms(1,2)])
qed

text \<open>
  Claim C1 fails on the code. The current collection has pairwise different identifiers
  and the file passes the validation, but its two elements share the identifier 7, which
  no stored bookmark has: both are appended, and the merged collection has the
  identifier 7 twice. (The import does keep the identifiers distinct when those of the
  file are pairwise different: \<open>import_keeps_distinct_ids\<close>.)
\<close>

theorem import_keeps_duplicate_ids_of_file:
  "distinct (map idProp (bookmarks exampleState)) \<and>
   every isValidElem [duplicateOne, duplicateTwo] = Inr True \<and>
   handleImportFile exampleState (Inr (JArr [duplicateOne, duplicateTwo])) True =
     (exampleState\<lparr>bookmarks := exampleCollection @ [duplicateOne, duplicateTwo],
        isSettingsOpen := False\<rparr>, Some (Imported 2)) \<and>
   \<not> distinct (map idProp (exampleCollection @ [duplicateOne, duplicateTwo]))"
proof -
  have b: "list_all is_bookmark [duplicateOne, duplicateTwo]"
    by (simp add: duplicateOne_def duplicateTwo_def exampleBookmark_is_bookmark)
  then have v: "every isValidElem [duplicateOne, duplicateTwo] = Inr True"
    by (intro every_all) (simp add: isValidElem_bookmark)
  have d: "distinct (map idProp (bookmarks exampleState))"
    by (simp add: bookmarks_exampleState idProp_exampleCollection)
  have "idProp ` set (bookmarks exampleState) = {JStr ''1'', JStr ''2'', JStr ''3''}"
    using idProp_exampleCollection bookmarks_exampleState
    by (metis list.set_map list.simps(15) empty_set)
  then have f: "filter (\<lambda>b. idProp b \<notin> idProp ` set (bookmarks exampleState))
      [duplicateOne, duplicateTwo] = [duplicateOne, duplicateTwo]"
    by (simp add: duplicateOne_def duplicateTwo_def idProp_exampleBookmark)
  have i: "handleImportFile exampleState (Inr (JArr [duplicateOne, duplicateTwo])) True =
     (exampleState\<lparr>bookmarks := exampleCollection @ [duplicateOne, duplicateTwo],
        isSettingsOpen := False\<rparr>, Some (Imported 2))"
    using import_bookmarks [OF exampleState_readable b] f
    by (simp add: bookmarks_exampleState)
  have n: "\<not> distinct (map idProp (exampleCollection @ [duplicateOne, duplicateTwo]))"
    by (simp add: duplicateOne_def duplicateTwo_def idProp_exampleBookmark)
  from d v i n show ?thesis by simp
qed

lemma import_not_array:
  "\<forall>elems. v \<noteq> JArr elems \<Longrightarrow> handleImportFile s (Inr v) c = (s, Some ExpectedArray)"
  by (cases v) (simp_all add: handleImportFile_def importParsed_def)

lemma import_syntax_error: "handleImportFile s (Inl e) c = (s, Some ErrorParsing)"
  by (simp add: handleImportFile_def)

lemma import_empty_file: "fileReaderOnload s None c = (s, None)"
  by (simp add: fileReaderOnload_def)

lemma import_file_with_content:
  "fileReaderOnload s (Some parseResult) c = handleImportFile s parseResult c"
  by (simp add: fileReaderOnload_def)

lemma import_invalid_shape:
  assumes "list_all readable elems" and "\<exists>b\<in>set elems. isValidElem b = Inr False"
  shows "handleImportFile s (Inr (JArr elems)) c = (s, Some InvalidFileFormat)"
proof -
  from assms(1) have "\<forall>b\<in>set elems. \<exists>ok. isValidElem b = Inr ok"
    by (simp add: list_all_iff readable_isValidElem)
  then have "every isValidElem elems = Inr False"
    using assms(2) by (rule every_False)
  then show ?thesis by (simp add: handleImportFile_def importParsed_def)
qed

lemma import_failure_unchanged:
  assumes "handleImportFile s p c = (s', a)" and "\<forall>n. a \<noteq> Some (Imported n)"
  shows "s' = s"
  using assms
  by (auto simp: handleImportFile_def importParsed_def bind_def
      split: sum.splits val.splits if_splits)

text \<open>
  Claim C9 fails on the code at a file whose array holds \<^verbatim>\<open>null\<close>: the element has no
  identity token, but reading \<^verbatim>\<open>b.id\<close> throws, the \<^verbatim>\<open>catch\<close> branch takes over and the alert
  is the one of a parse error, not the one of an invalid shape, which an empty object
  gets. The collection is unchanged in both cases (\<open>import_failure_unchanged\<close>), and a value
  that is not an array gets the alert of its own (\<open>import_not_array\<close>).
\<close>

theorem import_null_element_alert:
  "handleImportFile s (Inr (JArr [JNull])) confirmed = (s, Some ErrorParsing) \<and>
   handleImportFile s (Inr (JArr [JObj []])) confirmed = (s, Some InvalidFileFormat)"
  by (simp add: handleImportFile_def importParsed_def isValidElem_def)

text \<open>
  Claim C10 fails on the code. An element with an identifier, a link and a numeric
  creation timestamp, but without a title, passes the validation and is stored; on the
  collection that holds it the filter throws a TypeError when it reads
  \<^verbatim>\<open>bookmark.title.toLowerCase()\<close>, whatever the category, the query and the sort option are.
\<close>

theorem view_throws_on_imported_bookmark:
  "every isValidElem [untitledBookmark] = Inr True \<and>
   handleImportFile (exampleState\<lparr>bookmarks := []\<rparr>) (Inr (JArr [untitledBookmark])) True =
     (exampleState\<lparr>bookmarks := [untitledBookmark], isSettingsOpen := False\<rparr>,
      Some (Imported 1)) \<and>
   view env [untitledBookmark] category query option = Inl TypeError \<and>
   filteredBookmarks env (exampleState\<lparr>bookmarks := [untitledBookmark], isSettingsOpen := False\<rparr>)
     = Inl TypeError"
proof -
  have v: "every isValidElem [untitledBookmark] = Inr True"
    by (simp add: untitledBookmark_def isValidElem_def)
  have r: "list_all readable (bookmarks (exampleState\<lparr>bookmarks := []\<rparr>))" by simp
  have i: "handleImportFile (exampleState\<lparr>bookmarks := []\<rparr>) (Inr (JArr [untitledBookmark])) True =
     (exampleState\<lparr>bookmarks := [untitledBookmark], isSettingsOpen := False\<rparr>,
      Some (Imported 1))"
    using import_valid [OF r v] by (simp add: has_def)
  have m: "\<And>K Q. matchesFilter env K Q untitledBookmark = Inl TypeError"
    by (simp add: matchesFilter_def untitledBookmark_def bind_def)
  have t: "\<And>K Q S. view env [untitledBookmark] K Q S = Inl TypeError"
    by (simp add: view_def m)
  from v i t show ?thesis by (simp add: filteredBookmarks_def)
qed

end
